theory Spec2Isabelle
  imports Main "HOL-Library.Sublist" "HOL-Library.AList"
begin

section \<open>Python primitives used by \<open>scripts/add_verification_status.py\<close>\<close>

text \<open>
  Python strings are modelled as \<open>string\<close>. The substring test \<open>a in b\<close> is
  \<^const>\<open>sublist\<close>; the remaining string methods the script calls are written out below.
\<close>

datatype error = KeyError | IndexError

text \<open>\<open>s.replace(old, new)\<close>: every non-overlapping occurrence, scanning from the left.\<close>

fun str_replace :: "string \<Rightarrow> string \<Rightarrow> string \<Rightarrow> string" where
  "str_replace old new [] = (if old = [] then new else [])"
| "str_replace old new (c # cs) =
     (if old = [] then new @ c # str_replace old new cs
      else if prefix old (c # cs) then new @ str_replace old new (drop (length old - 1) cs)
      else c # str_replace old new cs)"

text \<open>\<open>s.find(sub)\<close>: the lowest index where \<open>sub\<close> starts, or \<open>-1\<close>.\<close>

fun str_find :: "string \<Rightarrow> string \<Rightarrow> int" where
  "str_find sub [] = (if sub = [] then 0 else - 1)"
| "str_find sub (c # cs) =
     (if prefix sub (c # cs) then 0
      else (let i = str_find sub cs in if i < 0 then - 1 else i + 1))"

text \<open>\<open>s.split(sep)\<close> for a one-character separator: never empty, keeps empty segments.\<close>

fun str_split :: "char \<Rightarrow> string \<Rightarrow> string list" where
  "str_split sep [] = [[]]"
| "str_split sep (c # cs) =
     (if c = sep then [] # str_split sep cs
      else (c # hd (str_split sep cs)) # tl (str_split sep cs))"

text \<open>\<open>sep.join(parts)\<close>.\<close>

fun str_join :: "string \<Rightarrow> string list \<Rightarrow> string" where
  "str_join sep [] = []"
| "str_join sep [p] = p"
| "str_join sep (p # q # ps) = p @ sep @ str_join sep (q # ps)"

text \<open>\<open>d.get(k, default)\<close> on a field that may be absent.\<close>

definition get_default :: "'a option \<Rightarrow> 'a \<Rightarrow> 'a" where
  "get_default field d = (case field of None \<Rightarrow> d | Some v \<Rightarrow> v)"

text \<open>
  A Python \<open>dict\<close> whose iteration order matters is an association list in insertion
  order: assigning to a present key keeps its position, assigning to a new key appends.
\<close>

definition dict_contains :: "('k \<times> 'v) list \<Rightarrow> 'k \<Rightarrow> bool" where
  "dict_contains d k = (map_of d k \<noteq> None)"

definition dict_getitem :: "('k \<times> 'v) list \<Rightarrow> 'k \<Rightarrow> error + 'v" where
  "dict_getitem d k = (case map_of d k of None \<Rightarrow> Inl KeyError | Some v \<Rightarrow> Inr v)"

definition dict_setitem :: "'k \<Rightarrow> 'v \<Rightarrow> ('k \<times> 'v) list \<Rightarrow> ('k \<times> 'v) list" where
  "dict_setitem k v d = AList.update k v d"

section \<open>Path normalizer\<close>

text \<open>
  The loop over \<open>enumerate(parts)\<close> of \<open>normalize_path\<close>: the segments from the first one
  equal to \<open>src\<close> on, if there is one.
\<close>

fun from_src :: "string list \<Rightarrow> string list option" where
  "from_src [] = None"
| "from_src (part # parts) =
     (if part = ''src'' then Some (part # parts) else from_src parts)"

text \<open>
  \<open>normalize_path\<close>. The slice \<open>path[src_idx + 1:]\<close> has a non-negative start, since
  \<open>find\<close> returns at least \<open>-1\<close>, so it drops \<open>src_idx + 1\<close> characters.
\<close>

definition normalize_path :: "string \<Rightarrow> string" where
  "normalize_path p =
     (let path = str_replace ''file://'' '''' p in
      if sublist ''/src/'' path then
        (let src_idx = str_find ''/src/'' path in drop (nat (src_idx + 1)) path)
      else
        (case from_src (str_split CHR ''/'' path) of
           Some parts \<Rightarrow> str_join ''/'' parts
         | None \<Rightarrow> path))"

section \<open>Data model\<close>

text \<open>
  The JSON documents, with the fields the script reads. A field that may be missing from
  a JSON object is an \<open>option\<close>; \<open>None\<close> is the absent key.
\<close>

record code_text =
  ct_lines_start :: "int option"
  ct_lines_end :: "int option"

record func =
  f_display_name :: "string option"
  f_code_path :: "string option"
  f_code_text :: "code_text option"

record report =
  r_verification :: "(string \<rightharpoonup> func list) option"

text \<open>
  A graph node and the graph document. The \<open>more\<close> part of each record stands for every
  field the script never touches (\<open>id\<close>, edges, metadata).
\<close>

record node =
  n_display_name :: "string option"
  n_full_path :: "string option"
  n_relative_path :: "string option"
  n_start_line :: "int option"
  n_verification_status :: "string option"

record 'n graph =
  g_nodes :: "'n node_scheme list option"

text \<open>
  Keys of \<open>lookup\<close>: the 3-tuple \<open>(display_name, normalized_path, lines_start)\<close> and the
  2-tuple \<open>(display_name, normalized_path)\<close>. A tuple of one length never equals a tuple of
  the other. The unpacking \<open>(name, lpath, *rest)\<close> of a key is \<open>key_name\<close>, \<open>key_lpath\<close>,
  \<open>key_rest\<close>.
\<close>

datatype key = Key3 string string "int option" | Key2 string string

fun key_name :: "key \<Rightarrow> string" where
  "key_name (Key3 name lpath l) = name"
| "key_name (Key2 name lpath) = name"

fun key_lpath :: "key \<Rightarrow> string" where
  "key_lpath (Key3 name lpath l) = lpath"
| "key_lpath (Key2 name lpath) = lpath"

fun key_rest :: "key \<Rightarrow> int option list" where
  "key_rest (Key3 name lpath l) = [l]"
| "key_rest (Key2 name lpath) = []"

record entry =
  e_path :: string
  e_status :: string
  e_lines_start :: "int option"
  e_lines_end :: "int option"

type_synonym lookup = "(key \<times> string) list"
type_synonym by_name = "string \<rightharpoonup> entry list"

section \<open>Identity index builder\<close>

definition status_mapping :: "(string \<times> string) list" where
  "status_mapping =
     [(''verified_functions'', ''verified''),
      (''failed_functions'', ''failed''),
      (''unverified_functions'', ''unverified'')]"

text \<open>
  The body of the inner loop of \<open>build_verification_lookup\<close>, for one record.
  \<open>by_name[display_name]\<close> raises \<open>KeyError\<close> for a name that is not a key.
\<close>

definition add_function ::
    "string \<Rightarrow> lookup \<times> by_name \<Rightarrow> func \<Rightarrow> error + (lookup \<times> by_name)" where
  "add_function status acc fn =
     (let lookup = fst acc;
          by_name = snd acc;
          display_name = get_default (f_display_name fn) '''';
          code_path = get_default (f_code_path fn) '''';
          code_text = get_default (f_code_text fn) \<lparr>ct_lines_start = None, ct_lines_end = None\<rparr>;
          lines_start = ct_lines_start code_text;
          lines_end = ct_lines_end code_text;
          normalized_path = normalize_path code_path;
          primary_key = Key3 display_name normalized_path lines_start;
          lookup = dict_setitem primary_key status lookup;
          secondary_key = Key2 display_name normalized_path;
          lookup = (if \<not> dict_contains lookup secondary_key
                    then dict_setitem secondary_key status lookup else lookup);
          by_name = (if by_name display_name = None
                     then by_name(display_name \<mapsto> []) else by_name)
      in case by_name display_name of
           None \<Rightarrow> Inl KeyError
         | Some matches \<Rightarrow>
             Inr (lookup,
                  by_name(display_name \<mapsto>
                    matches @
                      [\<lparr>e_path = normalized_path, e_status = status,
                        e_lines_start = lines_start, e_lines_end = lines_end\<rparr>])))"

text \<open>The inner loop \<open>for func in functions\<close>.\<close>

fun add_functions ::
    "string \<Rightarrow> lookup \<times> by_name \<Rightarrow> func list \<Rightarrow> error + (lookup \<times> by_name)" where
  "add_functions status acc [] = Inr acc"
| "add_functions status acc (fn # functions) =
     (case add_function status acc fn of
        Inl e \<Rightarrow> Inl e
      | Inr acc' \<Rightarrow> add_functions status acc' functions)"

text \<open>The outer loop \<open>for key, status in status_mapping.items()\<close>.\<close>

fun add_categories ::
    "(string \<rightharpoonup> func list) \<Rightarrow> lookup \<times> by_name \<Rightarrow> (string \<times> string) list \<Rightarrow>
     error + (lookup \<times> by_name)" where
  "add_categories verification acc [] = Inr acc"
| "add_categories verification acc ((k, status) # items) =
     (case add_functions status acc (get_default (verification k) []) of
        Inl e \<Rightarrow> Inl e
      | Inr acc' \<Rightarrow> add_categories verification acc' items)"

definition build_verification_lookup :: "report \<Rightarrow> error + (lookup \<times> by_name)" where
  "build_verification_lookup verification_data =
     (let verification = get_default (r_verification verification_data) Map.empty
      in add_categories verification ([], Map.empty) status_mapping)"

section \<open>Status resolver\<close>

text \<open>
  The scan of \<open>lookup.items()\<close> ("partial path matching"). \<open>Inr None\<close> is the scan running
  to its end without a \<open>return\<close>.
\<close>

fun fuzzy_scan :: "string \<Rightarrow> string \<Rightarrow> int option \<Rightarrow> lookup \<Rightarrow> error + string option" where
  "fuzzy_scan dname npath sline [] = Inr None"
| "fuzzy_scan dname npath sline ((k, status) # items) =
     (if key_name k = dname \<and> (sublist (key_lpath k) npath \<or> sublist npath (key_lpath k)) then
        (if key_rest k \<noteq> [] \<and> sline \<noteq> None then
           (case key_rest k of
              [] \<Rightarrow> Inl IndexError
            | lookup_start # _ \<Rightarrow>
                if lookup_start = sline then Inr (Some status)
                else fuzzy_scan dname npath sline items)
         else if key_rest k = [] then Inr (Some status)
         else fuzzy_scan dname npath sline items)
      else fuzzy_scan dname npath sline items)"

text \<open>The body of the loop over the candidate paths, for one non-empty path.\<close>

definition try_path :: "string \<Rightarrow> int option \<Rightarrow> lookup \<Rightarrow> string \<Rightarrow> error + string option" where
  "try_path dname sline lookup path =
     (let normalized_path = normalize_path path;
          key1 = Key3 dname normalized_path sline;
          key2 = Key2 dname normalized_path
      in if sline \<noteq> None \<and> dict_contains lookup key1 then map_sum id Some (dict_getitem lookup key1)
         else if dict_contains lookup key2 then map_sum id Some (dict_getitem lookup key2)
         else fuzzy_scan dname normalized_path sline lookup)"

text \<open>The loop \<open>for path in [relative_path, full_path]\<close>; an empty path is skipped.\<close>

fun try_paths :: "string \<Rightarrow> int option \<Rightarrow> lookup \<Rightarrow> string list \<Rightarrow> error + string option" where
  "try_paths dname sline lookup [] = Inr None"
| "try_paths dname sline lookup (path # paths) =
     (if path = [] then try_paths dname sline lookup paths
      else (case try_path dname sline lookup path of
              Inl e \<Rightarrow> Inl e
            | Inr (Some status) \<Rightarrow> Inr (Some status)
            | Inr None \<Rightarrow> try_paths dname sline lookup paths))"

text \<open>The name-only fallback after the loop.\<close>

definition name_fallback :: "string \<Rightarrow> by_name \<Rightarrow> error + string option" where
  "name_fallback dname by_name =
     (case by_name dname of
        None \<Rightarrow> Inr None
      | Some matches \<Rightarrow>
          (let statuses = set (map e_status matches) in
           if card statuses = 1 then
             (case matches of [] \<Rightarrow> Inl IndexError | m # _ \<Rightarrow> Inr (Some (e_status m)))
           else if length matches = 1 then
             (case matches of [] \<Rightarrow> Inl IndexError | m # _ \<Rightarrow> Inr (Some (e_status m)))
           else Inr None))"

definition find_verification_status ::
    "'a node_scheme \<Rightarrow> lookup \<Rightarrow> by_name \<Rightarrow> error + string option" where
  "find_verification_status nd lookup by_name =
     (let display_name = get_default (n_display_name nd) '''';
          full_path = get_default (n_full_path nd) '''';
          relative_path = get_default (n_relative_path nd) '''';
          start_line = n_start_line nd
      in case try_paths display_name start_line lookup [relative_path, full_path] of
           Inl e \<Rightarrow> Inl e
         | Inr (Some status) \<Rightarrow> Inr (Some status)
         | Inr None \<Rightarrow> name_fallback display_name by_name)"

section \<open>Enrichment pass\<close>

text \<open>
  \<open>process_graph\<close> without its file reads, prints and the final write: from the two loaded
  documents to the document that is written, with the statistics. \<open>stats[status] += 1\<close>
  raises \<open>KeyError\<close> for a status that is not a key of \<open>stats\<close>.
\<close>

type_synonym stats = "(string \<times> nat) list"

definition stats_incr :: "string \<Rightarrow> stats \<Rightarrow> error + stats" where
  "stats_incr k stats =
     (case dict_getitem stats k of
        Inl e \<Rightarrow> Inl e
      | Inr c \<Rightarrow> Inr (dict_setitem k (c + 1) stats))"

definition process_node ::
    "'a node_scheme \<Rightarrow> lookup \<Rightarrow> by_name \<Rightarrow> stats \<Rightarrow> error + ('a node_scheme \<times> stats)" where
  "process_node nd lookup by_name stats =
     (case find_verification_status nd lookup by_name of
        Inl e \<Rightarrow> Inl e
      | Inr status \<Rightarrow>
          if status \<noteq> None \<and> status \<noteq> Some '''' then
            map_sum id (Pair (nd\<lparr>n_verification_status := status\<rparr>))
              (stats_incr (get_default status '''') stats)
          else map_sum id (Pair nd) (stats_incr ''unknown'' stats))"

fun process_nodes ::
    "'a node_scheme list \<Rightarrow> lookup \<Rightarrow> by_name \<Rightarrow> stats \<Rightarrow> error + ('a node_scheme list \<times> stats)" where
  "process_nodes [] lookup by_name stats = Inr ([], stats)"
| "process_nodes (nd # nodes) lookup by_name stats =
     (case process_node nd lookup by_name stats of
        Inl e \<Rightarrow> Inl e
      | Inr (nd', stats') \<Rightarrow>
          (case process_nodes nodes lookup by_name stats' of
             Inl e \<Rightarrow> Inl e
           | Inr (nodes', stats'') \<Rightarrow> Inr (nd' # nodes', stats'')))"

definition process_graph ::
    "('n, 'a) graph_scheme \<Rightarrow> report \<Rightarrow> error + (('n, 'a) graph_scheme \<times> stats)" where
  "process_graph graph_data verification_data =
     (case build_verification_lookup verification_data of
        Inl e \<Rightarrow> Inl e
      | Inr (lookup, by_name) \<Rightarrow>
          (let nodes = get_default (g_nodes graph_data) [];
               stats = [(''verified'', 0), (''failed'', 0), (''unverified'', 0), (''unknown'', 0)]
           in case process_nodes nodes lookup by_name stats of
                Inl e \<Rightarrow> Inl e
              | Inr (nodes', stats') \<Rightarrow>
                  Inr (case g_nodes graph_data of
                         None \<Rightarrow> graph_data
                       | Some _ \<Rightarrow> graph_data\<lparr>g_nodes := Some nodes'\<rparr>,
                       stats')))"

section \<open>Notions used to state the properties\<close>

text \<open>
  The values \<open>build_verification_lookup\<close> computes for one record: its name and path after
  defaulting and normalization, its two keys and its \<open>by_name\<close> entry.
\<close>

definition func_name :: "func \<Rightarrow> string" where
  "func_name fn = get_default (f_display_name fn) ''''"

definition func_path :: "func \<Rightarrow> string" where
  "func_path fn = normalize_path (get_default (f_code_path fn) '''')"

definition func_lines_start :: "func \<Rightarrow> int option" where
  "func_lines_start fn =
     ct_lines_start (get_default (f_code_text fn) \<lparr>ct_lines_start = None, ct_lines_end = None\<rparr>)"

definition primary_key :: "func \<Rightarrow> key" where
  "primary_key fn = Key3 (func_name fn) (func_path fn) (func_lines_start fn)"

definition secondary_key :: "func \<Rightarrow> key" where
  "secondary_key fn = Key2 (func_name fn) (func_path fn)"

definition entry_of :: "string \<Rightarrow> func \<Rightarrow> entry" where
  "entry_of status fn =
     \<lparr>e_path = func_path fn, e_status = status, e_lines_start = func_lines_start fn,
      e_lines_end = ct_lines_end (get_default (f_code_text fn) \<lparr>ct_lines_start = None, ct_lines_end = None\<rparr>)\<rparr>"

text \<open>
  The records of a report in the order \<open>build_verification_lookup\<close> processes them, each
  with the status of its category.
\<close>

definition records :: "report \<Rightarrow> (string \<times> func) list" where
  "records verification_data =
     (let verification = get_default (r_verification verification_data) Map.empty in
      map (Pair ''verified'') (get_default (verification ''verified_functions'') []) @
      map (Pair ''failed'') (get_default (verification ''failed_functions'') []) @
      map (Pair ''unverified'') (get_default (verification ''unverified_functions'') []))"

text \<open>
  What the builder's loop body does to the two dictionaries for a record \<open>r\<close> with its
  status, and the index as the fold of this step over the records. The lemmas
  \<open>add_function_eq\<close> and \<open>build_verification_lookup_eq\<close> show that the builder computes it.
\<close>

definition add_record :: "lookup \<times> by_name \<Rightarrow> string \<times> func \<Rightarrow> lookup \<times> by_name" where
  "add_record acc r =
     (let lk = AList.update (primary_key (snd r)) (fst r) (fst acc)
      in (if map_of lk (secondary_key (snd r)) = None
          then AList.update (secondary_key (snd r)) (fst r) lk else lk,
          (snd acc)(func_name (snd r) \<mapsto>
             get_default (snd acc (func_name (snd r))) [] @ [entry_of (fst r) (snd r)])))"

definition index :: "report \<Rightarrow> lookup \<times> by_name" where
  "index vd = foldl add_record ([], Map.empty) (records vd)"

text \<open>
  Building the index of a report and then reading the outcome stored under a key
  (\<open>lookup[key]\<close>), or resolving a node against it.
\<close>

definition stored :: "report \<Rightarrow> key \<Rightarrow> error + string" where
  "stored vd k =
     (case build_verification_lookup vd of
        Inl e \<Rightarrow> Inl e
      | Inr idx \<Rightarrow> dict_getitem (fst idx) k)"

definition resolve :: "report \<Rightarrow> 'a node_scheme \<Rightarrow> error + string option" where
  "resolve vd nd =
     (case build_verification_lookup vd of
        Inl e \<Rightarrow> Inl e
      | Inr idx \<Rightarrow> find_verification_status nd (fst idx) (snd idx))"

text \<open>The three outcomes of \<open>status_mapping\<close>.\<close>

definition outcomes :: "string set" where
  "outcomes = {''verified'', ''failed'', ''unverified''}"

text \<open>A path whose first segment is \<open>src\<close>.\<close>

definition anchored :: "string \<Rightarrow> bool" where
  "anchored q = (hd (str_split CHR ''/'' q) = ''src'')"

section \<open>Example inputs\<close>

text \<open>A record with all its fields, a report from its three record lists, and a node.\<close>

definition ex_func :: "string \<Rightarrow> string \<Rightarrow> int \<Rightarrow> func" where
  "ex_func name p l =
     \<lparr>f_display_name = Some name, f_code_path = Some p,
      f_code_text = Some \<lparr>ct_lines_start = Some l, ct_lines_end = None\<rparr>\<rparr>"

definition ex_report :: "func list \<Rightarrow> func list \<Rightarrow> func list \<Rightarrow> report" where
  "ex_report vs fs us =
     \<lparr>r_verification = Some [''verified_functions'' \<mapsto> vs, ''failed_functions'' \<mapsto> fs,
                              ''unverified_functions'' \<mapsto> us]\<rparr>"

definition ex_node :: "string \<Rightarrow> string option \<Rightarrow> string option \<Rightarrow> int option \<Rightarrow> node" where
  "ex_node name rel full l =
     \<lparr>n_display_name = Some name, n_full_path = full, n_relative_path = rel,
      n_start_line = l, n_verification_status = None\<rparr>"

section \<open>Lemmas about the path normalizer\<close>

lemma str_find_sublist: "0 \<le> str_find sub s \<longleftrightarrow> sublist sub s"
  by (induction s) (auto simp: Let_def sublist_Cons_right)

lemma str_find_prefix: "sublist sub s \<Longrightarrow> prefix sub (drop (nat (str_find sub s)) s)"
proof (induction s)
  case Nil
  then show ?case by simp
next
  case (Cons c cs)
  show ?case
  proof (cases "prefix sub (c # cs)")
    case True
    then show ?thesis by simp
  next
    case False
    with Cons.prems have sub: "sublist sub cs" by (simp add: sublist_Cons_right)
    then have "0 \<le> str_find sub cs" by (simp add: str_find_sublist)
    then have "nat (str_find sub cs + 1) = Suc (nat (str_find sub cs))" by simp
    with False sub Cons.IH \<open>0 \<le> str_find sub cs\<close> show ?thesis by (simp add: Let_def)
  qed
qed

lemma str_replace_absent: "old \<noteq> [] \<Longrightarrow> \<not> sublist old s \<Longrightarrow> str_replace old new s = s"
  by (induction s) (auto simp: sublist_Cons_right)

lemma length_str_replace_le: "old \<noteq> [] \<Longrightarrow> length (str_replace old [] s) \<le> length s"
proof (induction old "[] :: string" s rule: str_replace.induct)
  case (1 old)
  then show ?case by simp
next
  case (2 old c cs)
  then show ?case by (auto simp: le_SucI intro: order_trans)
qed

lemma length_str_replace_less:
  "old \<noteq> [] \<Longrightarrow> sublist old s \<Longrightarrow> length (str_replace old [] s) < length s"
proof (induction s)
  case Nil
  then show ?case by simp
next
  case (Cons c cs)
  show ?case
  proof (cases "prefix old (c # cs)")
    case True
    have "length (str_replace old [] (drop (length old - 1) cs)) \<le> length (drop (length old - 1) cs)"
      using Cons.prems(1) by (rule length_str_replace_le)
    with True Cons.prems(1) show ?thesis by simp
  next
    case False
    with Cons show ?thesis by (simp add: sublist_Cons_right)
  qed
qed

lemma str_split_not_Nil: "str_split sep s \<noteq> []"
  by (induction s) auto

lemma anchored_ex: "anchored q \<longleftrightarrow> (\<exists>ps. str_split CHR ''/'' q = ''src'' # ps)"
  using str_split_not_Nil [of "CHR ''/''" q]
  by (cases "str_split CHR ''/'' q") (auto simp: anchored_def)

lemma str_join_Cons_Cons: "str_join sep ((c # p) # ps) = c # str_join sep (p # ps)"
  by (cases ps) auto

lemma str_join_split: "str_join [sep] (str_split sep s) = s"
proof (induction s)
  case Nil
  then show ?case by simp
next
  case (Cons c cs)
  obtain p ps where r: "str_split sep cs = p # ps"
    using str_split_not_Nil [of sep cs] by (cases "str_split sep cs") auto
  with Cons show ?case by (simp add: str_join_Cons_Cons)
qed

lemma str_split_src_prefix:
  "prefix ''src/'' q \<Longrightarrow> \<exists>ps. str_split CHR ''/'' q = ''src'' # ps"
  by (auto simp: prefix_def)

lemma str_split_src: "\<exists>ps. str_split CHR ''/'' ''src'' = ''src'' # ps"
  by simp

lemma from_src_Some: "from_src parts = Some ps \<Longrightarrow> \<exists>ps'. ps = ''src'' # ps'"
  by (induction parts) (auto split: if_splits)

lemma str_join_src: "str_join ''/'' (''src'' # ps) = ''src'' \<or> prefix ''src/'' (str_join ''/'' (''src'' # ps))"
  by (cases ps) auto

lemma from_src_length: "from_src parts = Some ps \<Longrightarrow> length (str_join sep ps) \<le> length (str_join sep parts)"
proof (induction parts)
  case Nil
  then show ?case by simp
next
  case (Cons a parts)
  then show ?case by (cases parts) (auto split: if_splits)
qed

lemma prefix_drop_Suc: "prefix (c # xs) (drop n s) \<Longrightarrow> prefix xs (drop (Suc n) s)"
proof -
  assume "prefix (c # xs) (drop n s)"
  then obtain zs where "drop n s = (c # xs) @ zs" by (auto simp: prefix_def)
  moreover have "drop (Suc n) s = tl (drop n s)" by (simp add: drop_Suc tl_drop)
  ultimately show ?thesis by simp
qed

lemma normalize_path_shape:
  "anchored (normalize_path p) \<or> from_src (str_split CHR ''/'' (normalize_path p)) = None"
proof -
  define path where "path = str_replace ''file://'' '''' p"
  show ?thesis
  proof (cases "sublist ''/src/'' path")
    case True
    have "prefix ''/src/'' (drop (nat (str_find ''/src/'' path)) path)"
      using True by (rule str_find_prefix)
    then have "prefix ''src/'' (drop (Suc (nat (str_find ''/src/'' path))) path)"
      by (rule prefix_drop_Suc)
    moreover have "0 \<le> str_find ''/src/'' path" using True by (simp add: str_find_sublist)
    then have "nat (str_find ''/src/'' path + 1) = Suc (nat (str_find ''/src/'' path))"
      by simp
    ultimately have "prefix ''src/'' (drop (nat (str_find ''/src/'' path + 1)) path)"
      by simp
    then show ?thesis using True
      by (simp add: normalize_path_def path_def [symmetric] anchored_ex str_split_src_prefix)
  next
    case False
    show ?thesis
    proof (cases "from_src (str_split CHR ''/'' path)")
      case None
      with False show ?thesis by (simp add: normalize_path_def path_def [symmetric])
    next
      case (Some ps)
      then obtain ps' where "ps = ''src'' # ps'" by (auto dest: from_src_Some)
      with str_join_src [of ps'] have "anchored (str_join ''/'' ps)"
        unfolding anchored_ex using str_split_src_prefix by auto
      with False Some show ?thesis by (simp add: normalize_path_def path_def [symmetric])
    qed
  qed
qed

lemma normalize_path_fixed:
  assumes "\<not> sublist ''file://'' q" "\<not> sublist ''/src/'' q"
    and "anchored q \<or> from_src (str_split CHR ''/'' q) = None"
  shows "normalize_path q = q"
proof -
  have r: "str_replace ''file://'' '''' q = q" using assms(1) by (simp add: str_replace_absent)
  from assms(3) show ?thesis
  proof
    assume "anchored q"
    then obtain ps where "str_split CHR ''/'' q = ''src'' # ps" by (auto simp: anchored_ex)
    moreover have "str_join ''/'' (str_split CHR ''/'' q) = q" by (rule str_join_split)
    ultimately show ?thesis using assms(2) r by (simp add: normalize_path_def)
  next
    assume "from_src (str_split CHR ''/'' q) = None"
    then show ?thesis using assms(2) r by (simp add: normalize_path_def)
  qed
qed

lemma length_normalize_path_le: "length (normalize_path p) \<le> length (str_replace ''file://'' '''' p)"
proof -
  define path where "path = str_replace ''file://'' '''' p"
  have "from_src (str_split CHR ''/'' path) = Some ps \<Longrightarrow> length (str_join ''/'' ps) \<le> length path" for ps
    using from_src_length [of "str_split CHR ''/'' path" ps "''/''"] by (simp add: str_join_split)
  then show ?thesis
    by (auto simp: normalize_path_def path_def [symmetric] split: option.splits)
qed

lemma normalize_path_changes:
  assumes "sublist ''file://'' q \<or> sublist ''/src/'' q"
  shows "normalize_path q \<noteq> q"
proof (cases "sublist ''file://'' q")
  case True
  then have "length (str_replace ''file://'' '''' q) < length q"
    by (simp add: length_str_replace_less)
  with length_normalize_path_le [of q] have "length (normalize_path q) < length q" by simp
  then show ?thesis by auto
next
  case False
  with assms have s: "sublist ''/src/'' q" by simp
  have r: "str_replace ''file://'' '''' q = q" using False by (simp add: str_replace_absent)
  have "q \<noteq> []" using s by auto
  have "0 \<le> str_find ''/src/'' q" using s by (simp add: str_find_sublist)
  then have "0 < nat (str_find ''/src/'' q + 1)" by simp
  then have "length (drop (nat (str_find ''/src/'' q + 1)) q) < length q"
    using \<open>q \<noteq> []\<close> by simp
  then have "length (normalize_path q) < length q" using s r by (simp add: normalize_path_def)
  then show ?thesis by auto
qed

section \<open>Lemmas about the index builder\<close>

lemma add_function_eq: "add_function status acc fn = Inr (add_record acc (status, fn))"
  by (auto simp: add_function_def add_record_def Let_def dict_setitem_def dict_contains_def
      primary_key_def secondary_key_def func_name_def func_path_def func_lines_start_def
      entry_of_def get_default_def)

lemma add_functions_eq:
  "add_functions status acc fns = Inr (foldl add_record acc (map (Pair status) fns))"
  by (induction fns arbitrary: acc) (simp_all add: add_function_eq)

lemma build_verification_lookup_eq: "build_verification_lookup vd = Inr (index vd)"
  by (simp add: build_verification_lookup_def status_mapping_def index_def records_def Let_def
      add_functions_eq)

lemma stored_eq: "stored vd k = dict_getitem (fst (index vd)) k"
  by (simp add: stored_def build_verification_lookup_eq)

lemma resolve_eq: "resolve vd nd = find_verification_status nd (fst (index vd)) (snd (index vd))"
  by (simp add: resolve_def build_verification_lookup_eq)

lemma fst_add_record_list:
  "fst (add_record acc r) =
     (let lk = AList.update (primary_key (snd r)) (fst r) (fst acc) in
      if map_of lk (secondary_key (snd r)) = None
      then AList.update (secondary_key (snd r)) (fst r) lk else lk)"
  by (simp add: add_record_def Let_def)

lemma fst_add_record:
  "map_of (fst (add_record acc (status, fn))) =
     (let m = (map_of (fst acc))(primary_key fn \<mapsto> status) in
      if m (secondary_key fn) = None then m(secondary_key fn \<mapsto> status) else m)"
  by (simp add: add_record_def Let_def update_conv')

lemma snd_add_record:
  "snd (add_record acc (status, fn)) =
     (snd acc)(func_name fn \<mapsto> get_default (snd acc (func_name fn)) [] @ [entry_of status fn])"
  by (simp add: add_record_def Let_def)

lemma primary_neq_secondary [simp]: "primary_key f \<noteq> secondary_key g" "secondary_key g \<noteq> primary_key f"
  by (simp_all add: primary_key_def secondary_key_def)

text \<open>pair key: first writer wins\<close>
lemma pair_key_foldl:
  "map_of (fst (foldl add_record acc rs)) (Key2 n p) =
     (case map_of (fst acc) (Key2 n p) of
        Some s \<Rightarrow> Some s
      | None \<Rightarrow> map_option fst (find (\<lambda>r. secondary_key (snd r) = Key2 n p) rs))"
proof (induction rs arbitrary: acc)
  case Nil
  then show ?case by (simp split: option.splits)
next
  case (Cons r rs)
  obtain st fn where r: "r = (st, fn)" by (cases r)
  have k: "primary_key fn \<noteq> Key2 n p" by (simp add: primary_key_def)
  show ?case
    unfolding foldl_Cons Cons.IH r fst_add_record
    using k by (auto simp: Let_def split: option.splits)
qed

text \<open>triple key: last writer wins\<close>
lemma triple_key_foldl:
  "map_of (fst (foldl add_record acc rs)) (Key3 n p l) =
     (case find (\<lambda>r. primary_key (snd r) = Key3 n p l) (rev rs) of
        Some r \<Rightarrow> Some (fst r)
      | None \<Rightarrow> map_of (fst acc) (Key3 n p l))"
proof (induction rs rule: rev_induct)
  case Nil
  then show ?case by simp
next
  case (snoc r rs)
  obtain st fn where r: "r = (st, fn)" by (cases r)
  have k: "secondary_key fn \<noteq> Key3 n p l" by (simp add: secondary_key_def)
  show ?case
    unfolding foldl_append foldl_Cons foldl_Nil r fst_add_record
    using k snoc.IH by (auto simp: Let_def split: option.splits)
qed

lemma by_name_foldl:
  "snd (foldl add_record acc rs) name =
     (let new = map (\<lambda>r. entry_of (fst r) (snd r)) (filter (\<lambda>r. func_name (snd r) = name) rs) in
      if new = [] then snd acc name else Some (get_default (snd acc name) [] @ new))"
proof (induction rs arbitrary: acc)
  case Nil
  then show ?case by simp
next
  case (Cons r rs)
  obtain st fn where r: "r = (st, fn)" by (cases r)
  show ?case
    unfolding foldl_Cons Cons.IH r snd_add_record
    by (auto simp: Let_def get_default_def)
qed

section \<open>Lemmas about the resolver\<close>

lemma fuzzy_scan_total: "\<exists>r. fuzzy_scan d np sl items = Inr r"
proof (induction items)
  case Nil
  then show ?case by simp
next
  case (Cons a items)
  obtain k s where a: "a = (k, s)" by (cases a)
  show ?case using Cons by (cases k) (auto simp: a)
qed

lemma fuzzy_scan_value: "fuzzy_scan d np sl items = Inr (Some s) \<Longrightarrow> s \<in> snd ` set items"
proof (induction items)
  case Nil
  then show ?case by simp
next
  case (Cons a items)
  obtain k s' where a: "a = (k, s')" by (cases a)
  show ?case using Cons by (cases k) (auto simp: a split: if_splits)
qed

lemma fuzzy_scan_pair_empty:
  "(Key2 d [], s) \<in> set items \<Longrightarrow> \<exists>s'. fuzzy_scan d np sl items = Inr (Some s')"
proof (induction items)
  case Nil
  then show ?case by simp
next
  case (Cons a items)
  obtain k s' where a: "a = (k, s')" by (cases a)
  show ?case using Cons by (cases k) (auto simp: a)
qed

lemma dict_getitem_contains: "dict_contains d k \<Longrightarrow> \<exists>v. dict_getitem d k = Inr v \<and> (k, v) \<in> set d"
  by (auto simp: dict_contains_def dict_getitem_def dest: map_of_SomeD)

lemma try_path_total: "\<exists>r. try_path d sl lookup path = Inr r"
  using fuzzy_scan_total [of d "normalize_path path" sl lookup]
  by (auto simp: try_path_def Let_def dest!: dict_getitem_contains)

lemma try_path_value: "try_path d sl lookup path = Inr (Some s) \<Longrightarrow> s \<in> snd ` set lookup"
  by (auto simp: try_path_def Let_def image_iff split: if_splits
      dest!: dict_getitem_contains fuzzy_scan_value) force+

lemma try_paths_total: "\<exists>r. try_paths d sl lookup paths = Inr r"
proof (induction paths)
  case Nil
  then show ?case by simp
next
  case (Cons path paths)
  obtain r where "try_path d sl lookup path = Inr r" using try_path_total by blast
  with Cons show ?case by (cases r) auto
qed

lemma try_paths_value: "try_paths d sl lookup paths = Inr (Some s) \<Longrightarrow> s \<in> snd ` set lookup"
proof (induction paths)
  case Nil
  then show ?case by simp
next
  case (Cons path paths)
  then show ?case
    by (auto split: if_splits sum.splits option.splits dest: try_path_value)
qed

lemma name_fallback_total: "\<exists>r. name_fallback d by_name = Inr r"
  by (auto simp: name_fallback_def Let_def split: option.splits list.splits)

lemma name_fallback_value:
  "name_fallback d by_name = Inr (Some s) \<Longrightarrow> \<exists>ms m. by_name d = Some ms \<and> m \<in> set ms \<and> e_status m = s"
  by (auto simp: name_fallback_def Let_def split: option.splits list.splits if_splits)

lemma find_verification_status_total: "\<exists>r. find_verification_status nd lookup by_name = Inr r"
proof -
  let ?d = "get_default (n_display_name nd) ''''"
  obtain r where r: "try_paths ?d (n_start_line nd) lookup
      [get_default (n_relative_path nd) '''', get_default (n_full_path nd) ''''] = Inr r"
    using try_paths_total by blast
  obtain r' where "name_fallback ?d by_name = Inr r'" using name_fallback_total by blast
  with r show ?thesis by (cases r) (auto simp: find_verification_status_def Let_def)
qed

lemma find_verification_status_value:
  assumes "find_verification_status nd lookup by_name = Inr (Some s)"
  shows "s \<in> snd ` set lookup \<or>
     (\<exists>ms m. by_name (get_default (n_display_name nd) '''') = Some ms \<and> m \<in> set ms \<and> e_status m = s)"
proof -
  let ?d = "get_default (n_display_name nd) ''''"
  let ?tp = "try_paths ?d (n_start_line nd) lookup
      [get_default (n_relative_path nd) '''', get_default (n_full_path nd) '''']"
  obtain r where r: "?tp = Inr r" using try_paths_total by blast
  show ?thesis
  proof (cases r)
    case None
    with r assms have "name_fallback ?d by_name = Inr (Some s)"
      by (simp add: find_verification_status_def Let_def del: try_paths.simps)
    then show ?thesis by (auto dest: name_fallback_value)
  next
    case (Some s')
    with r assms have "?tp = Inr (Some s)"
      by (simp add: find_verification_status_def Let_def del: try_paths.simps)
    then have "s \<in> snd ` set lookup" by (rule try_paths_value)
    then show ?thesis ..
  qed
qed

lemma try_path_triple:
  assumes "dict_getitem lookup (Key3 d (normalize_path path) (Some l)) = Inr s"
  shows "try_path d (Some l) lookup path = Inr (Some s)"
  using assms
  by (simp add: try_path_def Let_def dict_contains_def dict_getitem_def split: option.splits)

section \<open>Values stored in the built index\<close>

lemma records_outcome: "r \<in> set (records vd) \<Longrightarrow> fst r \<in> outcomes"
  by (auto simp: records_def outcomes_def Let_def)

lemma snd_set_update: "snd ` set (AList.update k v al) \<subseteq> insert v (snd ` set al)"
  by (induction al) auto

lemma lookup_values_add_record:
  "snd ` set (fst (add_record acc r)) \<subseteq> insert (fst r) (snd ` set (fst acc))"
proof -
  let ?lk = "AList.update (primary_key (snd r)) (fst r) (fst acc)"
  have a: "snd ` set ?lk \<subseteq> insert (fst r) (snd ` set (fst acc))"
    by (rule snd_set_update)
  have b: "snd ` set (AList.update (secondary_key (snd r)) (fst r) ?lk) \<subseteq> insert (fst r) (snd ` set ?lk)"
    by (rule snd_set_update)
  from a b show ?thesis unfolding fst_add_record_list Let_def by (simp split: if_splits) blast
qed

lemma lookup_values_foldl:
  "snd ` set (fst (foldl add_record acc rs)) \<subseteq> snd ` set (fst acc) \<union> fst ` set rs"
proof (induction rs arbitrary: acc)
  case Nil
  then show ?case by simp
next
  case (Cons r rs)
  show ?case
    using Cons.IH [of "add_record acc r"] lookup_values_add_record [of acc r] by auto
qed

lemma lookup_outcomes: "(k, s) \<in> set (fst (index vd)) \<Longrightarrow> s \<in> outcomes"
proof -
  assume "(k, s) \<in> set (fst (index vd))"
  then have "s \<in> snd ` set (fst (foldl add_record ([], Map.empty) (records vd)))"
    by (force simp: index_def)
  with lookup_values_foldl [of "([], Map.empty)" "records vd"]
  have "s \<in> fst ` set (records vd)" by auto
  then show ?thesis by (auto dest: records_outcome)
qed

lemma by_name_build:
  "snd (index vd) name =
     (let new = map (\<lambda>r. entry_of (fst r) (snd r))
                  (filter (\<lambda>r. func_name (snd r) = name) (records vd))
      in if new = [] then None else Some new)"
  by (simp add: index_def by_name_foldl Let_def get_default_def)

lemma by_name_outcomes:
  assumes "snd (index vd) name = Some ms" "m \<in> set ms"
  shows "e_status m \<in> outcomes"
proof -
  from assms(1) have "ms = map (\<lambda>r. entry_of (fst r) (snd r))
      (filter (\<lambda>r. func_name (snd r) = name) (records vd))"
    by (simp add: by_name_build Let_def split: if_splits)
  with assms(2) obtain r where "r \<in> set (records vd)" "m = entry_of (fst r) (snd r)" by auto
  then show ?thesis by (auto simp: entry_of_def dest: records_outcome)
qed

lemma resolved_outcome:
  assumes "find_verification_status nd (fst (index vd))
             (snd (index vd)) = Inr (Some s)"
  shows "s \<in> outcomes"
  using find_verification_status_value [OF assms]
  by (auto dest: lookup_outcomes by_name_outcomes)

lemma secondary_key_present:
  assumes "r \<in> set (records vd)"
  shows "\<exists>s. (secondary_key (snd r), s) \<in> set (fst (index vd))"
proof -
  obtain st fn where r: "r = (st, fn)" by (cases r)
  have "find (\<lambda>r'. secondary_key (snd r') = secondary_key (snd r)) (records vd) \<noteq> None"
    using assms unfolding find_None_iff r by force
  then have "map_of (fst (index vd)) (secondary_key (snd r)) \<noteq> None"
    unfolding index_def
    by (simp add: secondary_key_def [of "snd r"] pair_key_foldl)
  then show ?thesis by (auto dest: map_of_SomeD)
qed

section \<open>The records of a report\<close>

lemma get_default_mem:
  "fn \<in> set (get_default x []) \<longleftrightarrow> (\<exists>fns. x = Some fns \<and> fn \<in> set fns)"
  by (cases x) (simp_all add: get_default_def)

lemma records_Some:
  "r_verification vd = Some v \<Longrightarrow> records vd =
      map (Pair ''verified'') (get_default (v ''verified_functions'') []) @
      map (Pair ''failed'') (get_default (v ''failed_functions'') []) @
      map (Pair ''unverified'') (get_default (v ''unverified_functions'') [])"
  by (simp add: records_def Let_def get_default_def)

lemma records_None: "r_verification vd = None \<Longrightarrow> records vd = []"
  by (simp add: records_def Let_def get_default_def)

lemma in_Pair_image: "(a, b) \<in> Pair c ` S \<longleftrightarrow> a = c \<and> b \<in> S"
  by auto

lemma status_mapping_mem:
  "(k, st) \<in> set status_mapping \<longleftrightarrow>
     k = ''verified_functions'' \<and> st = ''verified'' \<or>
     k = ''failed_functions'' \<and> st = ''failed'' \<or>
     k = ''unverified_functions'' \<and> st = ''unverified''"
  unfolding status_mapping_def by (simp only: set_simps insert_iff empty_iff prod.inject) blast

lemma records_mem:
  "(st, fn) \<in> set (records vd) \<longleftrightarrow>
     (\<exists>v k fns. r_verification vd = Some v \<and> (k, st) \<in> set status_mapping \<and>
                 v k = Some fns \<and> fn \<in> set fns)"
proof (cases "r_verification vd")
  case None
  then show ?thesis by (simp add: records_None)
next
  case (Some v)
  have "(st, fn) \<in> set (records vd) \<longleftrightarrow>
      (st = ''verified'' \<and> fn \<in> set (get_default (v ''verified_functions'') [])) \<or>
      (st = ''failed'' \<and> fn \<in> set (get_default (v ''failed_functions'') [])) \<or>
      (st = ''unverified'' \<and> fn \<in> set (get_default (v ''unverified_functions'') []))"
    unfolding records_Some [OF Some]
    by (simp only: set_append set_map Un_iff in_Pair_image)
  also have "\<dots> \<longleftrightarrow> (\<exists>k. (k, st) \<in> set status_mapping \<and> fn \<in> set (get_default (v k) []))"
    unfolding status_mapping_mem by blast
  also have "\<dots> \<longleftrightarrow> (\<exists>k fns. (k, st) \<in> set status_mapping \<and> v k = Some fns \<and> fn \<in> set fns)"
    unfolding get_default_mem by blast
  finally show ?thesis unfolding Some by blast
qed

section \<open>A pair entry with the empty path\<close>

lemma dict_getitem_iff: "dict_getitem d k = Inr v \<longleftrightarrow> map_of d k = Some v"
  by (simp add: dict_getitem_def split: option.splits)

lemma normalize_path_Nil: "normalize_path [] = []"
  by (simp add: normalize_path_def)

lemma try_path_pair_empty:
  assumes "(Key2 d [], s0) \<in> set lookup"
  shows "\<exists>s. try_path d sl lookup path = Inr (Some s)"
  using fuzzy_scan_pair_empty [OF assms, of "normalize_path path" sl]
  by (auto simp: try_path_def Let_def dest!: dict_getitem_contains)

lemma try_paths_pair_empty:
  assumes "(Key2 d [], s0) \<in> set lookup" "rel \<noteq> [] \<or> full \<noteq> []"
  shows "\<exists>s. try_paths d sl lookup [rel, full] = Inr (Some s)"
proof -
  obtain s1 where 1: "try_path d sl lookup rel = Inr (Some s1)"
    using try_path_pair_empty [OF assms(1)] by blast
  obtain s2 where 2: "try_path d sl lookup full = Inr (Some s2)"
    using try_path_pair_empty [OF assms(1)] by blast
  show ?thesis using assms(2) 1 2 by auto
qed

section \<open>The name-only fallback\<close>

lemma card_set_one_iff: "card (set xs) = 1 \<longleftrightarrow> xs \<noteq> [] \<and> (\<forall>x\<in>set xs. x = hd xs)"
proof
  assume c: "card (set xs) = 1"
  then obtain a where a: "set xs = {a}" by (auto simp: card_1_singleton_iff)
  then have "xs \<noteq> []" by auto
  moreover from this a have "hd xs = a" using hd_in_set [of xs] by auto
  ultimately show "xs \<noteq> [] \<and> (\<forall>x\<in>set xs. x = hd xs)" using a by auto
next
  assume h: "xs \<noteq> [] \<and> (\<forall>x\<in>set xs. x = hd xs)"
  then have "set xs = {hd xs}" using hd_in_set [of xs] by auto
  then show "card (set xs) = 1" by simp
qed

lemma card_set_map_one_iff:
  "card (set (map f xs)) = 1 \<longleftrightarrow> xs \<noteq> [] \<and> (\<forall>x\<in>set xs. f x = f (hd xs))"
  using card_set_one_iff [of "map f xs"] by (cases xs) auto

lemma name_fallback_eq:
  "name_fallback d by_name =
     (case by_name d of
        None \<Rightarrow> Inr None
      | Some ms \<Rightarrow>
          if ms \<noteq> [] \<and> (\<forall>m\<in>set ms. e_status m = e_status (hd ms))
          then Inr (Some (e_status (hd ms))) else Inr None)"
proof (cases "by_name d")
  case None
  then show ?thesis by (simp add: name_fallback_def)
next
  case (Some ms)
  have c: "card (set (map e_status ms)) = 1 \<longleftrightarrow>
      ms \<noteq> [] \<and> (\<forall>m\<in>set ms. e_status m = e_status (hd ms))"
    by (rule card_set_map_one_iff)
  show ?thesis
  proof (cases ms)
    case Nil
    with Some show ?thesis by (simp add: name_fallback_def)
  next
    case (Cons m ms')
    show ?thesis
    proof (cases "card (set (map e_status ms)) = 1")
      case True
      with c Some Cons show ?thesis by (simp add: name_fallback_def Let_def del: set_map)
    next
      case False
      with c Cons have "length ms \<noteq> 1" by auto
      with False c Some Cons show ?thesis
        by (simp add: name_fallback_def Let_def del: set_map)
    qed
  qed
qed

lemma e_status_entry_of: "e_status (entry_of st fn) = st"
  by (simp add: entry_of_def)

lemma unanimous_map:
  "(ms \<noteq> [] \<and> (\<forall>m\<in>set ms. f m = f (hd ms))) \<longleftrightarrow>
   (map f ms \<noteq> [] \<and> (\<forall>s\<in>set (map f ms). s = hd (map f ms)))"
  by (cases ms) auto

lemma name_fallback_outcomes:
  assumes "by_name d = Some ms" "ms \<noteq> []" "outs = map e_status ms"
  shows "name_fallback d by_name =
     (if outs \<noteq> [] \<and> (\<forall>s\<in>set outs. s = hd outs) then Inr (Some (hd outs)) else Inr None)"
proof -
  have h: "hd outs = e_status (hd ms)" using assms(2,3) by (simp add: hd_map)
  have c: "(ms \<noteq> [] \<and> (\<forall>m\<in>set ms. e_status m = e_status (hd ms))) \<longleftrightarrow>
      (outs \<noteq> [] \<and> (\<forall>s\<in>set outs. s = hd outs))"
    unfolding assms(3) by (rule unanimous_map)
  have l: "name_fallback d by_name =
      (if ms \<noteq> [] \<and> (\<forall>m\<in>set ms. e_status m = e_status (hd ms))
       then Inr (Some (e_status (hd ms))) else Inr None)"
    unfolding name_fallback_eq assms(1) option.case ..
  show ?thesis unfolding l c h ..
qed

lemma name_fallback_build:
  assumes "outs = map fst (filter (\<lambda>r. func_name (snd r) = d) (records vd))"
  shows "name_fallback d (snd (index vd)) =
     (if outs \<noteq> [] \<and> (\<forall>s\<in>set outs. s = hd outs) then Inr (Some (hd outs)) else Inr None)"
proof -
  define rs where "rs = filter (\<lambda>r. func_name (snd r) = d) (records vd)"
  define ms where "ms = map (\<lambda>r. entry_of (fst r) (snd r)) rs"
  have o: "outs = map e_status ms"
    by (simp add: assms ms_def rs_def e_status_entry_of comp_def)
  have bn: "snd (index vd) d = (if ms = [] then None else Some ms)"
    by (simp add: by_name_build Let_def ms_def rs_def)
  show ?thesis
  proof (cases "ms = []")
    case True
    with bn o show ?thesis by (simp add: name_fallback_eq)
  next
    case False
    with bn have "snd (index vd) d = Some ms" by simp
    from this False o show ?thesis by (rule name_fallback_outcomes)
  qed
qed

section \<open>Lemmas about the enrichment pass\<close>

lemma resolve_outcome: "resolve vd nd = Inr (Some s) \<Longrightarrow> s \<in> outcomes"
  unfolding resolve_eq by (rule resolved_outcome)

lemma stats_incr_ok:
  assumes "k \<in> dom (map_of stats)"
  shows "\<exists>stats'. stats_incr k stats = Inr stats' \<and> dom (map_of stats') = dom (map_of stats)"
proof -
  from assms obtain c where c: "map_of stats k = Some c" by auto
  have "dom (map_of (AList.update k (c + 1) stats)) = insert k (dom (map_of stats))"
    by (simp add: update_conv')
  with assms have "dom (map_of (AList.update k (c + 1) stats)) = dom (map_of stats)"
    by (simp add: insert_absorb)
  with c show ?thesis
    by (simp add: stats_incr_def dict_getitem_def dict_setitem_def)
qed

lemma process_node_frame:
  assumes "insert ''unknown'' outcomes \<subseteq> dom (map_of stats)"
    and "\<forall>s. find_verification_status nd lookup by_name = Inr (Some s) \<longrightarrow> s \<in> outcomes"
  shows "\<exists>nd' stats'. process_node nd lookup by_name stats = Inr (nd', stats') \<and>
           insert ''unknown'' outcomes \<subseteq> dom (map_of stats') \<and>
           (case find_verification_status nd lookup by_name of
              Inr (Some s) \<Rightarrow> nd' = nd\<lparr>n_verification_status := Some s\<rparr>
            | _ \<Rightarrow> nd' = nd)"
proof -
  obtain r where r: "find_verification_status nd lookup by_name = Inr r"
    using find_verification_status_total by blast
  show ?thesis
  proof (cases r)
    case None
    have "''unknown'' \<in> dom (map_of stats)" using assms(1) by blast
    from stats_incr_ok [OF this] obtain stats' where
      "stats_incr ''unknown'' stats = Inr stats'" "dom (map_of stats') = dom (map_of stats)"
      by blast
    with r None assms(1) show ?thesis by (simp add: process_node_def)
  next
    case (Some s)
    with r assms(2) have o: "s \<in> outcomes" by simp
    then have ne: "s \<noteq> ''''" by (auto simp: outcomes_def)
    have "s \<in> dom (map_of stats)" using assms(1) o by blast
    from stats_incr_ok [OF this] obtain stats' where
      "stats_incr s stats = Inr stats'" "dom (map_of stats') = dom (map_of stats)"
      by blast
    with r Some assms(1) ne show ?thesis by (simp add: process_node_def get_default_def)
  qed
qed

lemma process_nodes_frame:
  assumes "insert ''unknown'' outcomes \<subseteq> dom (map_of stats)"
    and "\<forall>(nd :: 'a node_scheme) s.
           find_verification_status nd lookup by_name = Inr (Some s) \<longrightarrow> s \<in> outcomes"
  shows "\<exists>nodes' stats'.
           process_nodes (nodes :: 'a node_scheme list) lookup by_name stats = Inr (nodes', stats') \<and>
           list_all2 (\<lambda>nd nd'. case find_verification_status nd lookup by_name of
                                  Inr (Some s) \<Rightarrow> nd' = nd\<lparr>n_verification_status := Some s\<rparr>
                                | _ \<Rightarrow> nd' = nd) nodes nodes'"
  using assms(1)
proof (induction nodes arbitrary: stats)
  case Nil
  then show ?case by simp
next
  case (Cons nd nodes)
  have "\<forall>s. find_verification_status nd lookup by_name = Inr (Some s) \<longrightarrow> s \<in> outcomes"
    using assms(2) by blast
  from process_node_frame [OF Cons.prems this] obtain nd' stats' where
    1: "process_node nd lookup by_name stats = Inr (nd', stats')"
    and 2: "insert ''unknown'' outcomes \<subseteq> dom (map_of stats')"
    and 3: "case find_verification_status nd lookup by_name of
              Inr (Some s) \<Rightarrow> nd' = nd\<lparr>n_verification_status := Some s\<rparr>
            | _ \<Rightarrow> nd' = nd"
    by blast
  from Cons.IH [OF 2] obtain nodes' stats'' where
    4: "process_nodes nodes lookup by_name stats' = Inr (nodes', stats'')"
    and 5: "list_all2 (\<lambda>nd nd'. case find_verification_status nd lookup by_name of
                                  Inr (Some s) \<Rightarrow> nd' = nd\<lparr>n_verification_status := Some s\<rparr>
                                | _ \<Rightarrow> nd' = nd) nodes nodes'"
    by blast
  from 1 3 4 5 show ?case by simp
qed

section \<open>Evaluating the examples\<close>

lemma records_ex_report:
  "records (ex_report vs fs us) =
     map (Pair ''verified'') vs @ map (Pair ''failed'') fs @ map (Pair ''unverified'') us"
  by (simp add: records_def ex_report_def get_default_def)

lemmas ex_eval = ex_func_def ex_node_def primary_key_def secondary_key_def func_name_def
  func_path_def func_lines_start_def get_default_def normalize_path_def sublist_Cons_right

section \<open>Properties of the path normalizer\<close>

text \<open>
  C7. The normalizer collapses a duplicated project-name prefix to the \<open>src\<close> anchor:
  \<open>proj/proj/src/a/b.rs\<close> becomes \<open>src/a/b.rs\<close>; a path with no \<open>src\<close> anchor,
  \<open>no/anchor/here.rs\<close>, is returned unchanged.
\<close>

theorem normalize_path_examples:
  "normalize_path ''proj/proj/src/a/b.rs'' = ''src/a/b.rs'' \<and>
   normalize_path ''no/anchor/here.rs'' = ''no/anchor/here.rs''"
  by (simp add: normalize_path_def sublist_Cons_right)

text \<open>
  C2, as stated: normalizing twice gives the same as normalizing once, for every path.
  It fails for a path with two \<open>src\<close> directories: the first pass cuts at the first
  \<open>/src/\<close>, the second pass at the next one.
\<close>

theorem normalize_path_not_idempotent:
  "normalize_path (normalize_path ''proj/src/vendor/src/lib.rs'') \<noteq>
   normalize_path ''proj/src/vendor/src/lib.rs''"
  by (simp add: normalize_path_def sublist_Cons_right)

text \<open>
  C2, amended: normalizing twice gives the same as normalizing once exactly for the paths
  whose normalized form contains neither \<open>file://\<close> nor \<open>/src/\<close>.
\<close>

theorem normalize_path_idempotent_iff:
  "normalize_path (normalize_path p) = normalize_path p \<longleftrightarrow>
     \<not> sublist ''file://'' (normalize_path p) \<and> \<not> sublist ''/src/'' (normalize_path p)"
  using normalize_path_fixed [OF _ _ normalize_path_shape, of p]
    normalize_path_changes [of "normalize_path p"] by blast

theorem normalize_path_idempotent_witness:
  "\<not> sublist ''file://'' (normalize_path ''proj/proj/src/a/b.rs'') \<and>
   \<not> sublist ''/src/'' (normalize_path ''proj/proj/src/a/b.rs'') \<and>
   normalize_path (normalize_path ''proj/proj/src/a/b.rs'') = normalize_path ''proj/proj/src/a/b.rs''"
proof -
  have n: "normalize_path ''proj/proj/src/a/b.rs'' = ''src/a/b.rs''"
    by (simp add: normalize_path_def sublist_Cons_right)
  have h: "\<not> sublist ''file://'' (normalize_path ''proj/proj/src/a/b.rs'') \<and>
      \<not> sublist ''/src/'' (normalize_path ''proj/proj/src/a/b.rs'')"
    unfolding n by (simp add: sublist_Cons_right)
  with normalize_path_idempotent_iff [of "''proj/proj/src/a/b.rs''"] show ?thesis by blast
qed

section \<open>Properties of the index builder\<close>

text \<open>
  C4. The pair key is first-writer-wins: the record that comes first in the processing
  order (verified, then failed, then unverified records) among those with a given pair key
  \<open>(display_name, normalized_path)\<close> determines the outcome stored under that key, whatever
  records with the same pair key and other outcomes follow it.
\<close>

theorem pair_key_first_writer_wins:
  assumes "records vd = before @ (st, fn) # after"
    and "\<forall>r\<in>set before. secondary_key (snd r) \<noteq> secondary_key fn"
  shows "stored vd (secondary_key fn) = Inr st"
proof -
  let ?k = "Key2 (func_name fn) (func_path fn)"
  let ?acc = "foldl add_record ([], Map.empty) before"
  have k: "secondary_key fn = ?k" by (simp add: secondary_key_def)
  have "find (\<lambda>r. secondary_key (snd r) = ?k) before = None"
    using assms(2) by (auto simp: find_None_iff k)
  then have 1: "map_of (fst ?acc) ?k = None" by (simp add: pair_key_foldl)
  have 2: "map_of (fst (add_record ?acc (st, fn))) ?k = Some st"
    using 1 by (simp add: fst_add_record Let_def k primary_key_def)
  have "map_of (fst (foldl add_record (add_record ?acc (st, fn)) after)) ?k = Some st"
    using 2 by (simp add: pair_key_foldl)
  then show ?thesis
    by (simp add: stored_eq index_def assms(1) dict_getitem_iff k)
qed

theorem pair_key_first_writer_wins_witness:
  "records (ex_report [ex_func ''g'' ''src/a.rs'' 1, ex_func ''f'' ''p/src/a.rs'' 3]
              [ex_func ''f'' ''src/a.rs'' 7] []) =
     [(''verified'', ex_func ''g'' ''src/a.rs'' 1)] @
       (''verified'', ex_func ''f'' ''p/src/a.rs'' 3) # [(''failed'', ex_func ''f'' ''src/a.rs'' 7)] \<and>
   secondary_key (ex_func ''f'' ''src/a.rs'' 7) = secondary_key (ex_func ''f'' ''p/src/a.rs'' 3) \<and>
   stored (ex_report [ex_func ''g'' ''src/a.rs'' 1, ex_func ''f'' ''p/src/a.rs'' 3]
             [ex_func ''f'' ''src/a.rs'' 7] [])
     (secondary_key (ex_func ''f'' ''p/src/a.rs'' 3)) = Inr ''verified''"
proof -
  let ?vd = "ex_report [ex_func ''g'' ''src/a.rs'' 1, ex_func ''f'' ''p/src/a.rs'' 3]
              [ex_func ''f'' ''src/a.rs'' 7] []"
  have r: "records ?vd = [(''verified'', ex_func ''g'' ''src/a.rs'' 1)] @
       (''verified'', ex_func ''f'' ''p/src/a.rs'' 3) # [(''failed'', ex_func ''f'' ''src/a.rs'' 7)]"
    by (simp add: records_ex_report)
  have h: "\<forall>r\<in>set [(''verified'', ex_func ''g'' ''src/a.rs'' 1)].
      secondary_key (snd r) \<noteq> secondary_key (ex_func ''f'' ''p/src/a.rs'' 3)"
    by (simp add: ex_eval)
  have e: "secondary_key (ex_func ''f'' ''src/a.rs'' 7) = secondary_key (ex_func ''f'' ''p/src/a.rs'' 3)"
    by (simp add: ex_eval)
  from r e pair_key_first_writer_wins [OF r h] show ?thesis by blast
qed

text \<open>
  C10. The triple key is last-writer-wins: the record that comes last in the processing
  order among those with a given triple key \<open>(display_name, normalized_path, lines_start)\<close>
  determines the outcome stored under that key. In the witness an unverified record
  overwrites the triple entry of an earlier verified record with the same triple, while the
  pair key of the two keeps the outcome of the verified one, and a node with that triple
  resolves to \<open>unverified\<close>.
\<close>

theorem triple_key_last_writer_wins:
  assumes "records vd = before @ (st, fn) # after"
    and "\<forall>r\<in>set after. primary_key (snd r) \<noteq> primary_key fn"
  shows "stored vd (primary_key fn) = Inr st"
proof -
  let ?k = "Key3 (func_name fn) (func_path fn) (func_lines_start fn)"
  let ?acc = "foldl add_record ([], Map.empty) before"
  have k: "primary_key fn = ?k" by (simp add: primary_key_def)
  have 1: "map_of (fst (add_record ?acc (st, fn))) ?k = Some st"
    by (simp add: fst_add_record Let_def k secondary_key_def)
  have "find (\<lambda>r. primary_key (snd r) = ?k) (rev after) = None"
    using assms(2) by (auto simp: find_None_iff k)
  then have "map_of (fst (foldl add_record (add_record ?acc (st, fn)) after)) ?k = Some st"
    using 1 by (simp add: triple_key_foldl)
  then show ?thesis
    by (simp add: stored_eq index_def assms(1) dict_getitem_iff k)
qed

theorem triple_key_last_writer_wins_witness:
  "records (ex_report [ex_func ''f'' ''p/src/a.rs'' 3] [] [ex_func ''f'' ''src/a.rs'' 3]) =
     [(''verified'', ex_func ''f'' ''p/src/a.rs'' 3)] @ (''unverified'', ex_func ''f'' ''src/a.rs'' 3) # [] \<and>
   primary_key (ex_func ''f'' ''p/src/a.rs'' 3) = primary_key (ex_func ''f'' ''src/a.rs'' 3) \<and>
   stored (ex_report [ex_func ''f'' ''p/src/a.rs'' 3] [] [ex_func ''f'' ''src/a.rs'' 3])
     (primary_key (ex_func ''f'' ''src/a.rs'' 3)) = Inr ''unverified'' \<and>
   stored (ex_report [ex_func ''f'' ''p/src/a.rs'' 3] [] [ex_func ''f'' ''src/a.rs'' 3])
     (secondary_key (ex_func ''f'' ''src/a.rs'' 3)) = Inr ''verified'' \<and>
   resolve (ex_report [ex_func ''f'' ''p/src/a.rs'' 3] [] [ex_func ''f'' ''src/a.rs'' 3])
     (ex_node ''f'' (Some ''src/a.rs'') None (Some 3)) = Inr (Some ''unverified'')"
proof -
  let ?vd = "ex_report [ex_func ''f'' ''p/src/a.rs'' 3] [] [ex_func ''f'' ''src/a.rs'' 3]"
  have r: "records ?vd =
     [(''verified'', ex_func ''f'' ''p/src/a.rs'' 3)] @ (''unverified'', ex_func ''f'' ''src/a.rs'' 3) # []"
    by (simp add: records_ex_report)
  have h: "\<forall>r\<in>set []. primary_key (snd r) \<noteq> primary_key (ex_func ''f'' ''src/a.rs'' 3)"
    by simp
  have e: "primary_key (ex_func ''f'' ''p/src/a.rs'' 3) = primary_key (ex_func ''f'' ''src/a.rs'' 3)"
    by (simp add: ex_eval)
  have p: "stored ?vd (secondary_key (ex_func ''f'' ''src/a.rs'' 3)) = Inr ''verified''"
    by code_simp
  have q: "resolve ?vd (ex_node ''f'' (Some ''src/a.rs'') None (Some 3)) = Inr (Some ''unverified'')"
    by code_simp
  from r e p q triple_key_last_writer_wins [OF r h] show ?thesis by blast
qed

section \<open>Properties of the resolver\<close>

text \<open>
  C9. If a record of the report has a missing or empty \<open>code-path\<close>, every node with
  that record's display name and at least one non-empty candidate path resolves to some
  outcome, never to none, whatever the line numbers: the record's pair entry has the empty
  path, which is a substring of every path, and the scan accepts an entry without a line, so
  the scan of the built index succeeds for that name on every path and line.
\<close>

theorem empty_code_path_always_resolves:
  assumes "r_verification vd = Some v" "(k, st) \<in> set status_mapping" "v k = Some fns"
    and "fn \<in> set fns"
    and "f_code_path fn = None \<or> f_code_path fn = Some ''''"
    and "get_default (n_display_name nd) '''' = get_default (f_display_name fn) ''''"
    and "get_default (n_relative_path nd) '''' \<noteq> '''' \<or> get_default (n_full_path nd) '''' \<noteq> ''''"
  shows "(\<exists>s. resolve vd nd = Inr (Some s) \<and> s \<in> {''verified'', ''failed'', ''unverified''}) \<and>
         (\<exists>lookup by_name s. build_verification_lookup vd = Inr (lookup, by_name) \<and>
            fuzzy_scan (get_default (n_display_name nd) '''') npath sline lookup = Inr (Some s))"
proof -
  let ?lookup = "fst (index vd)"
  let ?d = "get_default (n_display_name nd) ''''"
  have "(st, fn) \<in> set (records vd)" using assms(1-4) by (auto simp: records_mem)
  then obtain s0 where "(secondary_key fn, s0) \<in> set ?lookup"
    using secondary_key_present [of "(st, fn)" vd] by auto
  moreover have "secondary_key fn = Key2 ?d []"
    using assms(5,6)
    by (auto simp: secondary_key_def func_name_def func_path_def get_default_def normalize_path_Nil)
  ultimately have pair: "(Key2 ?d [], s0) \<in> set ?lookup" by simp
  from try_paths_pair_empty [OF this assms(7)]
  obtain s where "try_paths ?d (n_start_line nd) ?lookup
      [get_default (n_relative_path nd) '''', get_default (n_full_path nd) ''''] = Inr (Some s)"
    by blast
  then have r: "resolve vd nd = Inr (Some s)"
    by (simp add: resolve_eq find_verification_status_def Let_def del: try_paths.simps)
  then have "s \<in> outcomes" by (rule resolve_outcome)
  with r have 1: "\<exists>s. resolve vd nd = Inr (Some s) \<and> s \<in> {''verified'', ''failed'', ''unverified''}"
    by (auto simp: outcomes_def)
  from fuzzy_scan_pair_empty [OF pair] obtain s' where
    "fuzzy_scan ?d npath sline ?lookup = Inr (Some s')" by blast
  moreover have "build_verification_lookup vd = Inr (?lookup, snd (index vd))"
    by (simp add: build_verification_lookup_eq)
  ultimately have 2: "\<exists>lookup by_name s. build_verification_lookup vd = Inr (lookup, by_name) \<and>
      fuzzy_scan ?d npath sline lookup = Inr (Some s)"
    by blast
  from 1 2 show ?thesis by blast
qed

theorem empty_code_path_always_resolves_witness:
  "\<exists>s. resolve (ex_report [] [\<lparr>f_display_name = Some ''f'', f_code_path = None, f_code_text = None\<rparr>] [])
          (ex_node ''f'' (Some ''lib/x.rs'') None (Some 5)) = Inr (Some s) \<and>
        s \<in> {''verified'', ''failed'', ''unverified''}"
proof -
  let ?fn = "\<lparr>f_display_name = Some ''f'', f_code_path = None, f_code_text = None\<rparr>"
  let ?v = "[''verified_functions'' \<mapsto> [], ''failed_functions'' \<mapsto> [?fn], ''unverified_functions'' \<mapsto> []]"
  have 1: "r_verification (ex_report [] [?fn] []) = Some ?v" by (simp add: ex_report_def)
  have 2: "(''failed_functions'', ''failed'') \<in> set status_mapping" by (simp add: status_mapping_def)
  have 3: "?v ''failed_functions'' = Some [?fn]" by simp
  have 4: "?fn \<in> set [?fn]" by simp
  have 5: "f_code_path ?fn = None \<or> f_code_path ?fn = Some ''''" by simp
  have 6: "get_default (n_display_name (ex_node ''f'' (Some ''lib/x.rs'') None (Some 5))) '''' =
      get_default (f_display_name ?fn) ''''" by (simp add: ex_node_def)
  have 7: "get_default (n_relative_path (ex_node ''f'' (Some ''lib/x.rs'') None (Some 5))) '''' \<noteq> '''' \<or>
      get_default (n_full_path (ex_node ''f'' (Some ''lib/x.rs'') None (Some 5))) '''' \<noteq> ''''"
    by (simp add: ex_node_def get_default_def)
  show ?thesis
    using empty_code_path_always_resolves [OF 1 2 3 4 5 6 7] by blast
qed

text \<open>
  C3. When no path-based strategy succeeds for either candidate path, the outcome depends
  only on the records of the report with the node's display name: if they all have the same
  outcome, that outcome is returned; in particular if there is exactly one; if there is no
  such record, or two of them have different outcomes, the result is none.
\<close>

theorem name_only_fallback:
  assumes "build_verification_lookup vd = Inr (lookup, by_name)"
    and "try_paths (get_default (n_display_name nd) '''') (n_start_line nd) lookup
           [get_default (n_relative_path nd) '''', get_default (n_full_path nd) ''''] = Inr None"
    and "outs = map fst (filter (\<lambda>r. func_name (snd r) = get_default (n_display_name nd) '''')
                           (records vd))"
  shows "(outs \<noteq> [] \<and> (\<forall>s\<in>set outs. s = s0) \<longrightarrow>
            find_verification_status nd lookup by_name = Inr (Some s0)) \<and>
         (outs = [s0] \<longrightarrow> find_verification_status nd lookup by_name = Inr (Some s0)) \<and>
         (outs = [] \<or> (\<exists>a\<in>set outs. \<exists>b\<in>set outs. a \<noteq> b) \<longrightarrow>
            find_verification_status nd lookup by_name = Inr None)"
proof -
  let ?res = "find_verification_status nd lookup by_name"
  have by_name: "by_name = snd (index vd)"
    using assms(1) by (simp add: build_verification_lookup_eq prod_eq_iff)
  have "?res = name_fallback (get_default (n_display_name nd) '''') by_name"
    using assms(2) by (simp add: find_verification_status_def Let_def del: try_paths.simps)
  then have r: "?res =
      (if outs \<noteq> [] \<and> (\<forall>s\<in>set outs. s = hd outs) then Inr (Some (hd outs)) else Inr None)"
    using name_fallback_build [OF assms(3)] by (simp add: by_name)
  have 1: "outs \<noteq> [] \<and> (\<forall>s\<in>set outs. s = s0) \<longrightarrow> ?res = Inr (Some s0)"
  proof
    assume a: "outs \<noteq> [] \<and> (\<forall>s\<in>set outs. s = s0)"
    then have "hd outs \<in> set outs" by simp
    with a have hd: "hd outs = s0" by blast
    have "\<forall>s\<in>set outs. s = hd outs" unfolding hd using a by blast
    with a hd show "?res = Inr (Some s0)" unfolding r by simp
  qed
  have 2: "outs = [s0] \<longrightarrow> ?res = Inr (Some s0)" unfolding r by simp
  have 3: "outs = [] \<or> (\<exists>a\<in>set outs. \<exists>b\<in>set outs. a \<noteq> b) \<longrightarrow> ?res = Inr None"
  proof
    assume "outs = [] \<or> (\<exists>a\<in>set outs. \<exists>b\<in>set outs. a \<noteq> b)"
    then have "\<not> (outs \<noteq> [] \<and> (\<forall>s\<in>set outs. s = hd outs))" by metis
    then show "?res = Inr None" unfolding r by (rule if_not_P)
  qed
  from 1 2 3 show ?thesis by blast
qed

theorem name_only_fallback_witness:
  "resolve (ex_report [ex_func ''foo'' ''a/x.rs'' 1, ex_func ''foo'' ''b/y.rs'' 2,
                       ex_func ''foo'' ''c/z.rs'' 3] [] [])
     (ex_node ''foo'' (Some ''q/w.rs'') None (Some 4)) = Inr (Some ''verified'') \<and>
   resolve (ex_report [ex_func ''bar'' ''a/x.rs'' 1] [ex_func ''bar'' ''b/y.rs'' 2] [])
     (ex_node ''bar'' (Some ''q/w.rs'') None (Some 4)) = Inr None"
proof -
  let ?n1 = "ex_node ''foo'' (Some ''q/w.rs'') None (Some 4)"
  let ?r1 = "ex_report [ex_func ''foo'' ''a/x.rs'' 1, ex_func ''foo'' ''b/y.rs'' 2,
                    ex_func ''foo'' ''c/z.rs'' 3] [] []"
  let ?n2 = "ex_node ''bar'' (Some ''q/w.rs'') None (Some 4)"
  let ?r2 = "ex_report [ex_func ''bar'' ''a/x.rs'' 1] [ex_func ''bar'' ''b/y.rs'' 2] []"
  have b1: "build_verification_lookup ?r1 = Inr (fst (index ?r1), snd (index ?r1))"
    and b2: "build_verification_lookup ?r2 = Inr (fst (index ?r2), snd (index ?r2))"
    by (simp_all add: build_verification_lookup_eq)
  have p1: "try_paths (get_default (n_display_name ?n1) '''') (n_start_line ?n1)
      (fst (index ?r1))
      [get_default (n_relative_path ?n1) '''', get_default (n_full_path ?n1) ''''] = Inr None"
    by code_simp
  have o1: "[''verified'', ''verified'', ''verified''] =
      map fst (filter (\<lambda>r. func_name (snd r) = get_default (n_display_name ?n1) '''') (records ?r1))"
    by code_simp
  have p2: "try_paths (get_default (n_display_name ?n2) '''') (n_start_line ?n2)
      (fst (index ?r2))
      [get_default (n_relative_path ?n2) '''', get_default (n_full_path ?n2) ''''] = Inr None"
    by code_simp
  have o2: "[''verified'', ''failed''] =
      map fst (filter (\<lambda>r. func_name (snd r) = get_default (n_display_name ?n2) '''') (records ?r2))"
    by code_simp
  have w1: "resolve ?r1 ?n1 = Inr (Some ''verified'')"
    using name_only_fallback [OF b1 p1 o1, of "''verified''"] by (simp add: resolve_eq)
  have amb: "\<exists>a\<in>set [''verified'', ''failed'']. \<exists>b\<in>set [''verified'', ''failed'']. a \<noteq> b"
    by (rule bexI [of _ "''verified''"], rule bexI [of _ "''failed''"]) simp_all
  have "find_verification_status ?n2 (fst (index ?r2)) (snd (index ?r2)) = Inr None"
    using name_only_fallback [OF b2 p2 o2, of "''verified''"] amb by blast
  then have w2: "resolve ?r2 ?n2 = Inr None" by (simp add: resolve_eq)
  from w1 w2 show ?thesis by blast
qed

text \<open>
  C1, as stated: for a node with \<open>start_line\<close> set, if the triple of either candidate
  path is a key of \<open>lookup\<close>, the resolver returns the outcome stored under it. It fails
  when the triple belongs to \<open>full_path\<close> and a later tier already succeeds for
  \<open>relative_path\<close>: the loop runs all three tiers on \<open>relative_path\<close> before it looks at
  \<open>full_path\<close>. Here the triple of \<open>full_path\<close> stores \<open>failed\<close>, and the pair key of
  \<open>relative_path\<close> answers \<open>verified\<close>.
\<close>

theorem exact_triple_of_full_path_shadowed:
  "n_start_line (ex_node ''f'' (Some ''lib.rs'') (Some ''/home/u/proj/src/lib.rs'') (Some 10)) = Some 10 \<and>
   stored (ex_report [ex_func ''f'' ''lib.rs'' 5] [ex_func ''f'' ''proj/src/lib.rs'' 10] [])
     (Key3 ''f'' (normalize_path ''/home/u/proj/src/lib.rs'') (Some 10)) = Inr ''failed'' \<and>
   resolve (ex_report [ex_func ''f'' ''lib.rs'' 5] [ex_func ''f'' ''proj/src/lib.rs'' 10] [])
     (ex_node ''f'' (Some ''lib.rs'') (Some ''/home/u/proj/src/lib.rs'') (Some 10))
     = Inr (Some ''verified'')"
  by code_simp

text \<open>
  C1, amended: for a node with \<open>start_line\<close> set, whatever else the index holds: if
  \<open>relative_path\<close> is not empty and its triple is a key, the stored outcome is returned; any
  outcome a tier finds for a non-empty \<open>relative_path\<close> is returned before \<open>full_path\<close> is
  looked at; and if \<open>relative_path\<close> is empty or all its tiers fail, and \<open>full_path\<close> is
  not empty and its triple is a key, the outcome stored under that triple is returned.
\<close>

theorem exact_triple_per_path:
  assumes "n_start_line nd = Some l"
    and "d = get_default (n_display_name nd) ''''"
    and "rel = get_default (n_relative_path nd) ''''"
    and "full = get_default (n_full_path nd) ''''"
  shows "(rel \<noteq> [] \<and> dict_getitem lookup (Key3 d (normalize_path rel) (Some l)) = Inr s \<longrightarrow>
            find_verification_status nd lookup by_name = Inr (Some s)) \<and>
         (rel \<noteq> [] \<and> try_path d (Some l) lookup rel = Inr (Some s) \<longrightarrow>
            find_verification_status nd lookup by_name = Inr (Some s)) \<and>
         ((rel = [] \<or> try_path d (Some l) lookup rel = Inr None) \<and> full \<noteq> [] \<and>
          dict_getitem lookup (Key3 d (normalize_path full) (Some l)) = Inr s \<longrightarrow>
            find_verification_status nd lookup by_name = Inr (Some s))"
proof -
  let ?res = "find_verification_status nd lookup by_name"
  have res: "?res =
      (case try_paths d (Some l) lookup [rel, full] of
         Inl e \<Rightarrow> Inl e
       | Inr None \<Rightarrow> name_fallback d by_name
       | Inr (Some status) \<Rightarrow> Inr (Some status))"
    unfolding assms(2,3,4)
    by (simp add: find_verification_status_def Let_def assms(1) del: try_paths.simps)
  have 2: "rel \<noteq> [] \<and> try_path d (Some l) lookup rel = Inr (Some s) \<longrightarrow> ?res = Inr (Some s)"
    unfolding res by simp
  have 1: "rel \<noteq> [] \<and> dict_getitem lookup (Key3 d (normalize_path rel) (Some l)) = Inr s \<longrightarrow>
      ?res = Inr (Some s)"
    using 2 try_path_triple [of lookup d rel l s] by blast
  have 3: "(rel = [] \<or> try_path d (Some l) lookup rel = Inr None) \<and> full \<noteq> [] \<and>
      dict_getitem lookup (Key3 d (normalize_path full) (Some l)) = Inr s \<longrightarrow> ?res = Inr (Some s)"
  proof
    assume a: "(rel = [] \<or> try_path d (Some l) lookup rel = Inr None) \<and> full \<noteq> [] \<and>
      dict_getitem lookup (Key3 d (normalize_path full) (Some l)) = Inr s"
    then have f: "try_path d (Some l) lookup full = Inr (Some s)" by (simp add: try_path_triple)
    from a have "try_paths d (Some l) lookup [rel, full] = Inr (Some s)"
      using f by auto
    then show "?res = Inr (Some s)" unfolding res by simp
  qed
  from 1 2 3 show ?thesis by blast
qed

theorem exact_triple_per_path_witness:
  "resolve (ex_report [ex_func ''add'' ''crate/src/lib.rs'' 10] [] [])
     (ex_node ''add'' (Some ''crate/crate/src/lib.rs'') None (Some 10)) = Inr (Some ''verified'') \<and>
   resolve (ex_report [ex_func ''add'' ''crate/src/lib.rs'' 10] [] [])
     (ex_node ''add'' None (Some ''file:///w/crate/src/lib.rs'') (Some 10)) = Inr (Some ''verified'')"
proof -
  let ?n1 = "ex_node ''add'' (Some ''crate/crate/src/lib.rs'') None (Some 10)"
  let ?n2 = "ex_node ''add'' None (Some ''file:///w/crate/src/lib.rs'') (Some 10)"
  let ?vd = "ex_report [ex_func ''add'' ''crate/src/lib.rs'' 10] [] []"
  let ?lookup = "fst (index ?vd)"
  have l1: "n_start_line ?n1 = Some 10" and l2: "n_start_line ?n2 = Some 10"
    by (simp_all add: ex_node_def)
  have d1: "''add'' = get_default (n_display_name ?n1) ''''"
    and d2: "''add'' = get_default (n_display_name ?n2) ''''"
    by (simp_all add: ex_node_def get_default_def)
  have r1: "''crate/crate/src/lib.rs'' = get_default (n_relative_path ?n1) ''''"
    and f1: "'''' = get_default (n_full_path ?n1) ''''"
    and r2: "'''' = get_default (n_relative_path ?n2) ''''"
    and f2: "''file:///w/crate/src/lib.rs'' = get_default (n_full_path ?n2) ''''"
    by (simp_all add: ex_node_def get_default_def)
  have k1: "dict_getitem ?lookup (Key3 ''add'' (normalize_path ''crate/crate/src/lib.rs'') (Some 10))
      = Inr ''verified''"
    by code_simp
  have k2: "dict_getitem ?lookup (Key3 ''add'' (normalize_path ''file:///w/crate/src/lib.rs'') (Some 10))
      = Inr ''verified''"
    by code_simp
  have w1: "resolve ?vd ?n1 = Inr (Some ''verified'')"
    using exact_triple_per_path [OF l1 d1 r1 f1, of ?lookup "''verified''" "snd (index ?vd)"] k1
    by (simp add: resolve_eq)
  have w2: "resolve ?vd ?n2 = Inr (Some ''verified'')"
    using exact_triple_per_path [OF l2 d2 r2 f2, of ?lookup "''verified''" "snd (index ?vd)"] k2
    by (simp add: resolve_eq)
  from w1 w2 show ?thesis by blast
qed

text \<open>
  C5. The end-to-end scenario: one verified record \<open>add\<close> at \<open>crate/src/lib.rs\<close>, line
  10, and a node \<open>add\<close> at \<open>crate/crate/src/lib.rs\<close>, line 10. Both paths normalize to
  \<open>src/lib.rs\<close>; the built index stores \<open>verified\<close> under the node's triple; the node
  resolves to \<open>verified\<close>, and the enrichment pass attaches it. The outcome is reached by the
  exact-triple strategy: the node has a non-empty \<open>relative_path\<close> and a \<open>start_line\<close>, and
  for this node the step on \<open>relative_path\<close>, and with it the resolver, returns whatever
  outcome an index stores under the triple \<open>(add, src/lib.rs, 10)\<close>, whatever its pair keys,
  its other entries and its name-only index hold. In the witness the pair key, the scan and
  the name-only fallback would all answer \<open>failed\<close>, and the node resolves to the
  \<open>verified\<close> of its triple.
\<close>

theorem end_to_end_scenario:
  "normalize_path ''crate/src/lib.rs'' = ''src/lib.rs'' \<and>
   normalize_path ''crate/crate/src/lib.rs'' = ''src/lib.rs'' \<and>
   map_sum id fst (build_verification_lookup (ex_report [ex_func ''add'' ''crate/src/lib.rs'' 10] [] [])) =
     Inr [(Key3 ''add'' ''src/lib.rs'' (Some 10), ''verified''),
          (Key2 ''add'' ''src/lib.rs'', ''verified'')] \<and>
   n_start_line (ex_node ''add'' (Some ''crate/crate/src/lib.rs'') None (Some 10)) = Some 10 \<and>
   stored (ex_report [ex_func ''add'' ''crate/src/lib.rs'' 10] [] [])
     (Key3 ''add'' (normalize_path ''crate/crate/src/lib.rs'') (Some 10)) = Inr ''verified'' \<and>
   resolve (ex_report [ex_func ''add'' ''crate/src/lib.rs'' 10] [] [])
     (ex_node ''add'' (Some ''crate/crate/src/lib.rs'') None (Some 10)) = Inr (Some ''verified'') \<and>
   process_graph
     \<lparr>g_nodes = Some [ex_node ''add'' (Some ''crate/crate/src/lib.rs'') None (Some 10)]\<rparr>
     (ex_report [ex_func ''add'' ''crate/src/lib.rs'' 10] [] []) =
     Inr (\<lparr>g_nodes = Some [(ex_node ''add'' (Some ''crate/crate/src/lib.rs'') None (Some 10))
                            \<lparr>n_verification_status := Some ''verified''\<rparr>]\<rparr>,
          [(''verified'', 1), (''failed'', 0), (''unverified'', 0), (''unknown'', 0)]) \<and>
   get_default (n_relative_path (ex_node ''add'' (Some ''crate/crate/src/lib.rs'') None (Some 10))) ''''
     = ''crate/crate/src/lib.rs'' \<and>
   (dict_getitem lookup (Key3 ''add'' ''src/lib.rs'' (Some 10)) = Inr s \<longrightarrow>
      try_path ''add'' (Some 10) lookup ''crate/crate/src/lib.rs'' = Inr (Some s) \<and>
      try_paths ''add'' (Some 10) lookup [''crate/crate/src/lib.rs'', ''''] = Inr (Some s) \<and>
      find_verification_status (ex_node ''add'' (Some ''crate/crate/src/lib.rs'') None (Some 10))
        lookup by_name = Inr (Some s))"
proof -
  let ?nd = "ex_node ''add'' (Some ''crate/crate/src/lib.rs'') None (Some 10)"
  let ?vd = "ex_report [ex_func ''add'' ''crate/src/lib.rs'' 10] [] []"
  have n: "normalize_path ''crate/crate/src/lib.rs'' = ''src/lib.rs''"
    by code_simp
  have scenario:
    "normalize_path ''crate/src/lib.rs'' = ''src/lib.rs'' \<and>
     normalize_path ''crate/crate/src/lib.rs'' = ''src/lib.rs'' \<and>
     map_sum id fst (build_verification_lookup ?vd) =
       Inr [(Key3 ''add'' ''src/lib.rs'' (Some 10), ''verified''),
            (Key2 ''add'' ''src/lib.rs'', ''verified'')] \<and>
     n_start_line ?nd = Some 10 \<and>
     stored ?vd (Key3 ''add'' (normalize_path ''crate/crate/src/lib.rs'') (Some 10)) = Inr ''verified'' \<and>
     resolve ?vd ?nd = Inr (Some ''verified'') \<and>
     process_graph \<lparr>g_nodes = Some [?nd]\<rparr> ?vd =
       Inr (\<lparr>g_nodes = Some [?nd\<lparr>n_verification_status := Some ''verified''\<rparr>]\<rparr>,
            [(''verified'', 1), (''failed'', 0), (''unverified'', 0), (''unknown'', 0)]) \<and>
     get_default (n_relative_path ?nd) '''' = ''crate/crate/src/lib.rs''"
    by code_simp
  have tier: "dict_getitem lookup (Key3 ''add'' ''src/lib.rs'' (Some 10)) = Inr s \<longrightarrow>
      try_path ''add'' (Some 10) lookup ''crate/crate/src/lib.rs'' = Inr (Some s) \<and>
      try_paths ''add'' (Some 10) lookup [''crate/crate/src/lib.rs'', ''''] = Inr (Some s) \<and>
      find_verification_status ?nd lookup by_name = Inr (Some s)"
  proof
    assume "dict_getitem lookup (Key3 ''add'' ''src/lib.rs'' (Some 10)) = Inr s"
    then have "dict_getitem lookup
        (Key3 ''add'' (normalize_path ''crate/crate/src/lib.rs'') (Some 10)) = Inr s"
      by (simp only: n)
    then have 1: "try_path ''add'' (Some 10) lookup ''crate/crate/src/lib.rs'' = Inr (Some s)"
      by (rule try_path_triple)
    then have 2: "try_paths ''add'' (Some 10) lookup [''crate/crate/src/lib.rs'', ''''] = Inr (Some s)"
      by simp
    have "find_verification_status ?nd lookup by_name =
        (case try_paths ''add'' (Some 10) lookup [''crate/crate/src/lib.rs'', ''''] of
           Inl e \<Rightarrow> Inl e
         | Inr None \<Rightarrow> name_fallback ''add'' by_name
         | Inr (Some status) \<Rightarrow> Inr (Some status))"
      by (simp add: find_verification_status_def ex_node_def get_default_def Let_def
          del: try_paths.simps)
    with 2 have 3: "find_verification_status ?nd lookup by_name = Inr (Some s)"
      by (simp del: try_paths.simps)
    from 1 2 3 show "try_path ''add'' (Some 10) lookup ''crate/crate/src/lib.rs'' = Inr (Some s) \<and>
      try_paths ''add'' (Some 10) lookup [''crate/crate/src/lib.rs'', ''''] = Inr (Some s) \<and>
      find_verification_status ?nd lookup by_name = Inr (Some s)"
      by blast
  qed
  from scenario tier show ?thesis by blast
qed

theorem end_to_end_scenario_witness:
  "dict_getitem [(Key2 ''add'' ''src/lib.rs'', ''failed''),
                 (Key3 ''add'' ''src/lib.rs'' (Some 10), ''verified'')]
     (Key3 ''add'' ''src/lib.rs'' (Some 10)) = Inr ''verified'' \<and>
   dict_getitem [(Key2 ''add'' ''src/lib.rs'', ''failed''),
                 (Key3 ''add'' ''src/lib.rs'' (Some 10), ''verified'')]
     (Key2 ''add'' ''src/lib.rs'') = Inr ''failed'' \<and>
   fuzzy_scan ''add'' ''src/lib.rs'' (Some 10)
     [(Key2 ''add'' ''src/lib.rs'', ''failed''),
      (Key3 ''add'' ''src/lib.rs'' (Some 10), ''verified'')] = Inr (Some ''failed'') \<and>
   name_fallback ''add''
     [''add'' \<mapsto> [\<lparr>e_path = ''src/lib.rs'', e_status = ''failed'',
                       e_lines_start = Some 11, e_lines_end = None\<rparr>]] = Inr (Some ''failed'') \<and>
   try_path ''add'' (Some 10)
     [(Key2 ''add'' ''src/lib.rs'', ''failed''),
      (Key3 ''add'' ''src/lib.rs'' (Some 10), ''verified'')]
     ''crate/crate/src/lib.rs'' = Inr (Some ''verified'') \<and>
   find_verification_status (ex_node ''add'' (Some ''crate/crate/src/lib.rs'') None (Some 10))
     [(Key2 ''add'' ''src/lib.rs'', ''failed''),
      (Key3 ''add'' ''src/lib.rs'' (Some 10), ''verified'')]
     [''add'' \<mapsto> [\<lparr>e_path = ''src/lib.rs'', e_status = ''failed'',
                       e_lines_start = Some 11, e_lines_end = None\<rparr>]] = Inr (Some ''verified'')"
proof -
  let ?lookup = "[(Key2 ''add'' ''src/lib.rs'', ''failed''),
                  (Key3 ''add'' ''src/lib.rs'' (Some 10), ''verified'')]"
  let ?by_name = "[''add'' \<mapsto> [\<lparr>e_path = ''src/lib.rs'', e_status = ''failed'',
                       e_lines_start = Some 11, e_lines_end = None\<rparr>]]"
  have h: "dict_getitem ?lookup (Key3 ''add'' ''src/lib.rs'' (Some 10)) = Inr ''verified''"
    by (simp add: dict_getitem_def)
  have p: "dict_getitem ?lookup (Key2 ''add'' ''src/lib.rs'') = Inr ''failed''"
    by (simp add: dict_getitem_def)
  have z: "fuzzy_scan ''add'' ''src/lib.rs'' (Some 10) ?lookup = Inr (Some ''failed'')"
    by simp
  have f: "name_fallback ''add'' ?by_name = Inr (Some ''failed'')"
    by (simp add: name_fallback_def)
  have "dict_getitem ?lookup (Key3 ''add'' ''src/lib.rs'' (Some 10)) = Inr ''verified'' \<longrightarrow>
      try_path ''add'' (Some 10) ?lookup ''crate/crate/src/lib.rs'' = Inr (Some ''verified'') \<and>
      try_paths ''add'' (Some 10) ?lookup [''crate/crate/src/lib.rs'', ''''] = Inr (Some ''verified'') \<and>
      find_verification_status (ex_node ''add'' (Some ''crate/crate/src/lib.rs'') None (Some 10))
        ?lookup ?by_name = Inr (Some ''verified'')"
    using end_to_end_scenario [where lookup = ?lookup and s = "''verified''" and by_name = ?by_name]
    by blast
  with h p z f show ?thesis by blast
qed

section \<open>Properties of the enrichment pass\<close>

text \<open>
  C6. The enrichment pass returns the graph document it was given, changed only in its
  nodes: a node that resolves to an outcome gets \<open>verification_status\<close> set to it, and the
  outcome is one of \<open>verified\<close>, \<open>failed\<close>, \<open>unverified\<close>; a node that resolves to none is
  returned as it was, with no field added or set; nothing else of a node or of the document
  changes, and a document without \<open>nodes\<close> is returned unchanged.
\<close>

theorem process_graph_frame:
  "\<exists>doc stats. process_graph (graph_data :: ('n, 'a) graph_scheme) vd = Inr (doc, stats) \<and>
     (case g_nodes graph_data of
        None \<Rightarrow> doc = graph_data
      | Some nodes \<Rightarrow>
          \<exists>nodes'. doc = graph_data\<lparr>g_nodes := Some nodes'\<rparr> \<and>
            list_all2 (\<lambda>nd nd'. case resolve vd nd of
                                   Inr (Some s) \<Rightarrow>
                                     s \<in> {''verified'', ''failed'', ''unverified''} \<and>
                                     nd' = nd\<lparr>n_verification_status := Some s\<rparr>
                                 | _ \<Rightarrow> nd' = nd) nodes nodes')"
proof -
  let ?lookup = "fst (index vd)" and ?by_name = "snd (index vd)"
  let ?stats = "[(''verified'', 0::nat), (''failed'', 0), (''unverified'', 0), (''unknown'', 0)]"
  let ?nodes = "get_default (g_nodes graph_data) []"
  have s: "insert ''unknown'' outcomes \<subseteq> dom (map_of ?stats)" by (simp add: outcomes_def)
  have o: "\<forall>(nd :: 'n node_scheme) s.
      find_verification_status nd ?lookup ?by_name = Inr (Some s) \<longrightarrow> s \<in> outcomes"
    using resolved_outcome by blast
  from process_nodes_frame [OF s o, where nodes = ?nodes] obtain nodes' stats' where
    1: "process_nodes ?nodes ?lookup ?by_name ?stats = Inr (nodes', stats')"
    and 2: "list_all2 (\<lambda>nd nd'. case find_verification_status nd ?lookup ?by_name of
                                  Inr (Some s) \<Rightarrow> nd' = nd\<lparr>n_verification_status := Some s\<rparr>
                                | _ \<Rightarrow> nd' = nd) ?nodes nodes'"
    by blast
  have 3: "list_all2 (\<lambda>nd nd'. case resolve vd nd of
                                   Inr (Some s) \<Rightarrow>
                                     s \<in> {''verified'', ''failed'', ''unverified''} \<and>
                                     nd' = nd\<lparr>n_verification_status := Some s\<rparr>
                                 | _ \<Rightarrow> nd' = nd) ?nodes nodes'"
    unfolding resolve_eq
    by (rule list_all2_mono [OF 2])
       (use o in \<open>auto simp: outcomes_def split: sum.splits option.splits\<close>)
  have pg: "process_graph graph_data vd =
      Inr (case g_nodes graph_data of None \<Rightarrow> graph_data
           | Some _ \<Rightarrow> graph_data\<lparr>g_nodes := Some nodes'\<rparr>, stats')"
    using 1
    by (simp add: process_graph_def build_verification_lookup_eq split_beta Let_def
        split: option.splits)
  show ?thesis
  proof (cases "g_nodes graph_data")
    case None
    with pg show ?thesis by simp
  next
    case (Some nodes)
    with 3 have "list_all2 (\<lambda>nd nd'. case resolve vd nd of
                                   Inr (Some s) \<Rightarrow>
                                     s \<in> {''verified'', ''failed'', ''unverified''} \<and>
                                     nd' = nd\<lparr>n_verification_status := Some s\<rparr>
                                 | _ \<Rightarrow> nd' = nd) nodes nodes'"
      by (simp add: get_default_def)
    with pg Some show ?thesis by auto
  qed
qed

theorem process_graph_frame_witness:
  "\<exists>stats. process_graph
      \<lparr>g_nodes = Some [ex_node ''add'' (Some ''crate/crate/src/lib.rs'') None (Some 10),
                       ex_node ''sub'' (Some ''crate/crate/src/lib.rs'') None (Some 20)]\<rparr>
      (ex_report [ex_func ''add'' ''crate/src/lib.rs'' 10] [] []) =
    Inr (\<lparr>g_nodes = Some [(ex_node ''add'' (Some ''crate/crate/src/lib.rs'') None (Some 10))
                            \<lparr>n_verification_status := Some ''verified''\<rparr>,
                          ex_node ''sub'' (Some ''crate/crate/src/lib.rs'') None (Some 20)]\<rparr>,
         stats)"
proof -
  let ?n1 = "ex_node ''add'' (Some ''crate/crate/src/lib.rs'') None (Some 10)"
  let ?n2 = "ex_node ''sub'' (Some ''crate/crate/src/lib.rs'') None (Some 20)"
  let ?vd = "ex_report [ex_func ''add'' ''crate/src/lib.rs'' 10] [] []"
  let ?g = "\<lparr>g_nodes = Some [?n1, ?n2]\<rparr>"
  have r1: "resolve ?vd ?n1 = Inr (Some ''verified'')" by code_simp
  have r2: "resolve ?vd ?n2 = Inr None" by code_simp
  from process_graph_frame [of ?g ?vd] obtain doc stats nodes' where
    pg: "process_graph ?g ?vd = Inr (doc, stats)"
    and doc: "doc = ?g\<lparr>g_nodes := Some nodes'\<rparr>"
    and rel: "list_all2 (\<lambda>nd nd'. case resolve ?vd nd of
                                   Inr (Some s) \<Rightarrow>
                                     s \<in> {''verified'', ''failed'', ''unverified''} \<and>
                                     nd' = nd\<lparr>n_verification_status := Some s\<rparr>
                                 | _ \<Rightarrow> nd' = nd) [?n1, ?n2] nodes'"
    by auto
  from rel r1 r2 have "nodes' = [?n1\<lparr>n_verification_status := Some ''verified''\<rparr>, ?n2]"
    by (auto simp: list_all2_Cons1)
  with pg doc show ?thesis by simp
qed

section \<open>Totality\<close>

text \<open>
  C8. Neither the index builder nor the status resolver raises, whatever fields the
  records of the report and the node lack: the builder returns an index for every report, the
  resolver returns an outcome or none for every node and every index. A missing field acts
  as its default: a report without \<open>verification\<close> gives the empty index, a record without
  fields is indexed as the record with empty name, empty path and no lines, and for a node
  without paths the result is that of the name-only fallback.
\<close>

theorem builder_and_resolver_total:
  "(\<exists>lookup by_name. build_verification_lookup vd = Inr (lookup, by_name)) \<and>
   (\<exists>r. find_verification_status nd lookup' by_name' = Inr r) \<and>
   (\<exists>r. resolve vd nd = Inr r) \<and>
   build_verification_lookup \<lparr>r_verification = None\<rparr> = Inr ([], Map.empty) \<and>
   add_function status acc \<lparr>f_display_name = None, f_code_path = None, f_code_text = None\<rparr> =
     add_function status acc
       \<lparr>f_display_name = Some '''', f_code_path = Some '''',
        f_code_text = Some \<lparr>ct_lines_start = None, ct_lines_end = None\<rparr>\<rparr> \<and>
   find_verification_status (nd\<lparr>n_relative_path := None, n_full_path := None\<rparr>) lookup' by_name' =
     name_fallback (get_default (n_display_name nd) '''') by_name'"
proof -
  have 1: "\<exists>lookup by_name. build_verification_lookup vd = Inr (lookup, by_name)"
    by (simp add: build_verification_lookup_eq prod_eq_iff)
  have 2: "\<exists>r. find_verification_status nd lookup' by_name' = Inr r"
    by (rule find_verification_status_total)
  have 3: "\<exists>r. resolve vd nd = Inr r"
    unfolding resolve_eq by (rule find_verification_status_total)
  have 4: "build_verification_lookup \<lparr>r_verification = None\<rparr> = Inr ([], Map.empty)"
    by (simp add: build_verification_lookup_def status_mapping_def get_default_def)
  have 5: "add_function status acc \<lparr>f_display_name = None, f_code_path = None, f_code_text = None\<rparr> =
     add_function status acc
       \<lparr>f_display_name = Some '''', f_code_path = Some '''',
        f_code_text = Some \<lparr>ct_lines_start = None, ct_lines_end = None\<rparr>\<rparr>"
    by (simp add: add_function_def get_default_def)
  have 6: "find_verification_status (nd\<lparr>n_relative_path := None, n_full_path := None\<rparr>) lookup' by_name' =
     name_fallback (get_default (n_display_name nd) '''') by_name'"
    by (simp add: find_verification_status_def get_default_def)
  from 1 2 3 4 5 6 show ?thesis by blast
qed

end
